theory Spec2Isabelle
  imports Main "HOL-Library.Sublist"
begin

section \<open>Strings\<close>

text \<open>
  Log lines are Python \<open>str\<close> values; here they are \<open>string\<close>, a list of 8-bit
  characters, read as the code points below 256. The character functions below are
  Python's \<open>str.lower\<close>, \<open>str.isspace\<close> and the regular-expression class \<open>\d\<close> on
  those code points: the letters with a lower case are \<open>A\<close> to \<open>Z\<close> and \<open>0xC0\<close> to
  \<open>0xDE\<close> without \<open>0xD7\<close>; the spaces are \<open>0x09\<close> to \<open>0x0D\<close>, \<open>0x1C\<close> to \<open>0x20\<close>,
  \<open>0x85\<close> and \<open>0xA0\<close>; the digits are \<open>0\<close> to \<open>9\<close>.
\<close>

definition upper_chars :: string where
  "upper_chars =
     ''ABCDEFGHIJKLMNOPQRSTUVWXYZ'' @
     [CHR 0xC0, CHR 0xC1, CHR 0xC2, CHR 0xC3, CHR 0xC4, CHR 0xC5, CHR 0xC6, CHR 0xC7,
      CHR 0xC8, CHR 0xC9, CHR 0xCA, CHR 0xCB, CHR 0xCC, CHR 0xCD, CHR 0xCE, CHR 0xCF,
      CHR 0xD0, CHR 0xD1, CHR 0xD2, CHR 0xD3, CHR 0xD4, CHR 0xD5, CHR 0xD6, CHR 0xD8,
      CHR 0xD9, CHR 0xDA, CHR 0xDB, CHR 0xDC, CHR 0xDD, CHR 0xDE]"

definition lower_chars :: string where
  "lower_chars =
     ''abcdefghijklmnopqrstuvwxyz'' @
     [CHR 0xE0, CHR 0xE1, CHR 0xE2, CHR 0xE3, CHR 0xE4, CHR 0xE5, CHR 0xE6, CHR 0xE7,
      CHR 0xE8, CHR 0xE9, CHR 0xEA, CHR 0xEB, CHR 0xEC, CHR 0xED, CHR 0xEE, CHR 0xEF,
      CHR 0xF0, CHR 0xF1, CHR 0xF2, CHR 0xF3, CHR 0xF4, CHR 0xF5, CHR 0xF6, CHR 0xF8,
      CHR 0xF9, CHR 0xFA, CHR 0xFB, CHR 0xFC, CHR 0xFD, CHR 0xFE]"

definition lower_char :: "char \<Rightarrow> char" where
  "lower_char c =
     (case map_of (zip upper_chars lower_chars) c of
        Some d \<Rightarrow> d
      | None \<Rightarrow> c)"

definition lower :: "string \<Rightarrow> string" where
  "lower s = map lower_char s"

definition is_space :: "char \<Rightarrow> bool" where
  "is_space c =
     (c \<in> set [CHR 0x09, CHR 0x0A, CHR 0x0B, CHR 0x0C, CHR 0x0D,
                CHR 0x1C, CHR 0x1D, CHR 0x1E, CHR 0x1F, CHR 0x20,
                CHR 0x85, CHR 0xA0])"

definition is_digit :: "char \<Rightarrow> bool" where
  "is_digit c = (c \<in> set ''0123456789'')"

text \<open>\<open>s.strip()\<close>: leading and trailing whitespace removed.\<close>

definition strip :: "string \<Rightarrow> string" where
  "strip s = rev (dropWhile is_space (rev (dropWhile is_space s)))"

text \<open>\<open>needle in hay\<close> on strings: \<open>needle\<close> occurs as a contiguous substring.\<close>

fun str_in :: "string \<Rightarrow> string \<Rightarrow> bool" where
  "str_in needle [] = (needle = [])"
| "str_in needle (c # cs) = (prefix needle (c # cs) \<or> str_in needle cs)"

text \<open>\<open>sep.join(xs)\<close>.\<close>

fun join :: "string \<Rightarrow> string list \<Rightarrow> string" where
  "join sep [] = []"
| "join sep [x] = x"
| "join sep (x # y # ys) = x @ sep @ join sep (y # ys)"

definition newline :: string where
  "newline = [CHR 0x0A]"

section \<open>Plan extraction\<close>

text \<open>
  The loop of \<open>extract_plan_from_logs\<close>, with its two variables \<open>plan_content\<close> and
  \<open>in_plan_section\<close> as arguments. The three branches are the source's
  \<open>if\<close>/\<open>elif\<close>/\<open>elif\<close>; the third one is the \<open>break\<close>.
\<close>

fun plan_loop :: "string list \<Rightarrow> string list \<Rightarrow> bool \<Rightarrow> string list" where
  "plan_loop [] plan_content in_plan_section = plan_content"
| "plan_loop (log_entry # logs) plan_content in_plan_section =
     (if str_in ''implementation plan'' (lower log_entry)
      then plan_loop logs plan_content True
      else if in_plan_section \<and> strip log_entry \<noteq> []
      then plan_loop logs (plan_content @ [log_entry]) in_plan_section
      else if in_plan_section \<and> \<not> strip log_entry \<noteq> []
      then plan_content
      else plan_loop logs plan_content in_plan_section)"

definition default_plan :: string where
  "default_plan = join newline
     [''# Implementation Plan'',
      '''',
      ''## Phase 1: Analysis and Setup'',
      ''- Analyze current codebase structure'',
      ''- Identify required dependencies'',
      ''- Set up development environment'',
      '''',
      ''## Phase 2: Core Implementation'',
      ''- Implement main functionality'',
      ''- Add error handling'',
      ''- Write unit tests'',
      '''',
      ''## Phase 3: Integration and Testing'',
      ''- Integrate with existing systems'',
      ''- Perform integration testing'',
      ''- Optimize performance'',
      '''',
      ''## Phase 4: Documentation and Deployment'',
      ''- Update documentation'',
      ''- Prepare deployment scripts'',
      ''- Deploy to staging environment'']"

definition extract_plan_from_logs :: "string list \<Rightarrow> string" where
  "extract_plan_from_logs logs =
     (let plan_content = plan_loop logs [] False
      in if plan_content \<noteq> [] then join newline plan_content else default_plan)"

text \<open>The two notions the specification uses for a line.\<close>

definition is_marker :: "string \<Rightarrow> bool" where
  "is_marker l = str_in ''implementation plan'' (lower l)"

definition is_blank :: "string \<Rightarrow> bool" where
  "is_blank l = (strip l = [])"

section \<open>Pull-request URL extraction\<close>

text \<open>
  The fragment of Python's \<open>re\<close> that the pattern
  \<^verbatim>\<open>https://github\.com/[^/]+/[^/]+/pull/\d+\<close> is written in: a sequence of
  character classes (a literal character, the complement \<open>[^c]\<close> of one character,
  \<open>\d\<close>), each taken once or under the greedy \<open>+\<close>.
\<close>

datatype cls = Lit char | NotLit char | Digit

datatype quant = Once | Many

type_synonym regex = "(cls \<times> quant) list"

fun cls_ok :: "cls \<Rightarrow> char \<Rightarrow> bool" where
  "cls_ok (Lit a) c = (c = a)"
| "cls_ok (NotLit a) c = (c \<noteq> a)"
| "cls_ok Digit c = is_digit c"

text \<open>
  Matching anchored at the start of the string, as a backtracking matcher does it:
  under \<open>+\<close> the longer repetition is tried first, and the rest of the pattern is
  tried after fewer repetitions only when that fails. The result is the matched text
  (\<open>group(0)\<close>).
\<close>

fun re_match :: "regex \<Rightarrow> string \<Rightarrow> string option" where
  "re_match [] s = Some []"
| "re_match ((k, q) # r) [] = None"
| "re_match ((k, Once) # r) (c # cs) =
     (if cls_ok k c then map_option ((#) c) (re_match r cs) else None)"
| "re_match ((k, Many) # r) (c # cs) =
     (if cls_ok k c
      then (case re_match ((k, Many) # r) cs of
              Some m \<Rightarrow> Some (c # m)
            | None \<Rightarrow> map_option ((#) c) (re_match r cs))
      else None)"

text \<open>\<open>re.search\<close>: the match at the leftmost position that has one.\<close>

fun re_search :: "regex \<Rightarrow> string \<Rightarrow> string option" where
  "re_search r [] = re_match r []"
| "re_search r (c # cs) =
     (case re_match r (c # cs) of Some m \<Rightarrow> Some m | None \<Rightarrow> re_search r cs)"

definition lit :: "string \<Rightarrow> regex" where
  "lit s = map (\<lambda>c. (Lit c, Once)) s"

definition pr_url_regex :: regex where
  "pr_url_regex =
     lit ''https://github.com/'' @ [(NotLit CHR ''/'', Many)] @ lit ''/''
       @ [(NotLit CHR ''/'', Many)] @ lit ''/pull/'' @ [(Digit, Many)]"

fun extract_pr_url_from_logs :: "string list \<Rightarrow> string option" where
  "extract_pr_url_from_logs [] = None"
| "extract_pr_url_from_logs (log_entry # logs) =
     (if str_in ''pull request'' (lower log_entry) \<and> str_in ''https://github.com'' log_entry
      then (case re_search pr_url_regex log_entry of
              Some pr_url \<Rightarrow> Some pr_url
            | None \<Rightarrow> extract_pr_url_from_logs logs)
      else extract_pr_url_from_logs logs)"

text \<open>
  The specification's words for the same things: a well-formed pull-request URL is
  \<open>https://github.com/<owner>/<repo>/pull/<digits>\<close>, and a line qualifies when it
  contains ``pull request'' in any letter case and has such a URL as a substring.
\<close>

definition is_pr_url :: "string \<Rightarrow> bool" where
  "is_pr_url u \<longleftrightarrow>
     (\<exists>owner repo ds.
        u = ''https://github.com/'' @ owner @ ''/'' @ repo @ ''/pull/'' @ ds
        \<and> owner \<noteq> [] \<and> CHR ''/'' \<notin> set owner
        \<and> repo \<noteq> [] \<and> CHR ''/'' \<notin> set repo
        \<and> ds \<noteq> [] \<and> list_all is_digit ds)"

definition pr_line :: "string \<Rightarrow> bool" where
  "pr_line l \<longleftrightarrow>
     sublist ''pull request'' (lower l) \<and> (\<exists>u. sublist u l \<and> is_pr_url u)"

section \<open>The agent client\<close>

text \<open>
  Exceptions are values: a call returns \<open>Inl e\<close> when the source raises \<open>e\<close> and
  \<open>Inr v\<close> when it returns \<open>v\<close>.
\<close>

datatype exn =
    ValueError
  | ConnectionError
  | HTTPError nat
  | JSONDecodeError
  | SendError
  | RuntimeError

record client =
  org_id :: string
  token :: string
  base_url :: string

text \<open>
  Whether an optional string counts as true in a condition (it is neither \<open>None\<close> nor
  empty), and \<open>a or b\<close> on optional strings.
\<close>

fun truthy :: "string option \<Rightarrow> bool" where
  "truthy None = False"
| "truthy (Some s) = (s \<noteq> [])"

definition py_or :: "string option \<Rightarrow> string option \<Rightarrow> string option" where
  "py_or a b = (if truthy a then a else b)"

text \<open>
  \<open>CodegenClient.__init__\<close>, with the process environment \<open>os.environ\<close> as a map.
\<close>

definition CodegenClient ::
  "(string \<rightharpoonup> string) \<Rightarrow> string option \<Rightarrow> string option \<Rightarrow> string \<Rightarrow> exn + client" where
  "CodegenClient environ org_id_arg token_arg base_url_arg =
     (let self_org_id = py_or org_id_arg (environ ''CODEGEN_ORG_ID'');
          self_token = py_or token_arg (environ ''CODEGEN_TOKEN'')
      in if \<not> truthy self_org_id then Inl ValueError
         else if \<not> truthy self_token then Inl ValueError
         else Inr \<lparr>org_id = the self_org_id, token = the self_token,
                   base_url = base_url_arg\<rparr>)"

text \<open>
  \<open>get_codegen_client\<close>: the module-level variable \<open>codegen_client\<close> is the argument
  \<open>cached\<close>; a client constructed here is the one the source also stores there.
\<close>

definition get_codegen_client :: "(string \<rightharpoonup> string) \<Rightarrow> client option \<Rightarrow> exn + client" where
  "get_codegen_client environ cached =
     (case cached of
        Some c \<Rightarrow> Inr c
      | None \<Rightarrow> CodegenClient environ None None ''https://api.codegen.com/v1'')"

text \<open>
  What the remote service does with one HTTP request is outside the program: either no
  response arrives (\<open>requests\<close> raises), or a response with a status code and a body,
  which is \<open>None\<close> when it is not JSON. A network is a function from the request (method,
  URL, JSON data, query parameters) to that; the headers are the same in every request
  of a client.
\<close>

datatype 'a http_reply = NoReply | Reply nat "'a option"

type_synonym 'a network =
  "string \<Rightarrow> string \<Rightarrow> (string \<times> string) list \<Rightarrow> (string \<times> nat) list \<Rightarrow> 'a http_reply"

text \<open>
  \<open>response.raise_for_status()\<close> followed by \<open>response.json()\<close>: the first raises for
  the status codes 400 to 599, the second for a body that is not JSON.
\<close>

definition response_json :: "'a http_reply \<Rightarrow> exn + 'a" where
  "response_json response =
     (case response of
        NoReply \<Rightarrow> Inl ConnectionError
      | Reply status_code body \<Rightarrow>
          if 400 \<le> status_code \<and> status_code < 600 then Inl (HTTPError status_code)
          else (case body of None \<Rightarrow> Inl JSONDecodeError | Some j \<Rightarrow> Inr j))"

text \<open>
  \<open>_make_request\<close>. Its \<open>except\<close> clause prints and re-raises, so every exception
  leaves the function.
\<close>

definition make_request ::
  "client \<Rightarrow> 'a network \<Rightarrow> string \<Rightarrow> string \<Rightarrow> (string \<times> string) list \<Rightarrow>
   (string \<times> nat) list \<Rightarrow> exn + 'a" where
  "make_request self net method endpoint data params =
     (let url = base_url self @ endpoint
      in if lower method = ''get'' then response_json (net ''get'' url [] params)
         else if lower method = ''post'' then response_json (net ''post'' url data [])
         else Inl ValueError)"

text \<open>
  The two response bodies the monitor reads, dictionaries as the client's methods are
  typed: the run, of which it reads the key \<open>status\<close>, and the logs, of which it reads
  the key \<open>logs\<close>, a list of strings.
\<close>

type_synonym run_info = "string \<rightharpoonup> string"

type_synonym logs_info = "string \<rightharpoonup> string list"

definition get_agent_run :: "client \<Rightarrow> run_info network \<Rightarrow> string \<Rightarrow> exn + run_info" where
  "get_agent_run self net agent_run_id =
     make_request self net ''get''
       (''/organizations/'' @ org_id self @ ''/agent/run/'' @ agent_run_id) [] []"

definition get_agent_run_logs ::
  "client \<Rightarrow> logs_info network \<Rightarrow> string \<Rightarrow> nat \<Rightarrow> nat \<Rightarrow> exn + logs_info" where
  "get_agent_run_logs self net agent_run_id page size_arg =
     make_request self net ''get''
       (''/organizations/'' @ org_id self @ ''/agent/run/'' @ agent_run_id @ ''/logs'')
       [] [(''page'', page), (''size'', size_arg)]"

section \<open>The connection manager\<close>

record pr_event =
  status :: string
  prUrl :: "string option"
  error :: "string option"
  createdAt :: string

record pr_message =
  msg_type :: string
  projectId :: string
  requirementId :: string
  event_data :: pr_event

text \<open>
  A WebSocket: \<open>ws_id\<close> is \<open>id(websocket)\<close>, \<open>sent\<close> the messages its peer has been
  sent, and \<open>peer_gone\<close> says that \<open>send_text\<close> raises (the peer has disconnected).
\<close>

record websocket =
  ws_id :: nat
  peer_gone :: bool
  sent :: "pr_message list"

record subscription =
  project_id :: string
  requirement_id :: string
  agent_run_id :: string

text \<open>
  \<open>pr_subscriptions\<close> is a dictionary keyed by the connection id, kept as the list of
  its items in iteration order. The key is the decimal string of \<open>id(websocket)\<close> in
  the source, which \<open>broadcast_pr_event\<close> converts back with \<open>int\<close>; here it is the
  number.
\<close>

record connection_manager =
  active_connections :: "websocket list"
  pr_subscriptions :: "(nat \<times> subscription) list"

datatype log_record =
    SendFailed exn
  | MonitorError string exn
  | PrCreated string string

definition send_text :: "websocket \<Rightarrow> pr_message \<Rightarrow> exn + websocket" where
  "send_text ws message =
     (if peer_gone ws then Inl SendError else Inr (ws\<lparr>sent := sent ws @ [message]\<rparr>))"

text \<open>The effect of a send on the websocket object, which the list holds by reference.\<close>

fun store_ws :: "websocket \<Rightarrow> websocket list \<Rightarrow> websocket list" where
  "store_ws ws' [] = []"
| "store_ws ws' (conn # conns) =
     (if ws_id conn = ws_id ws' then ws' # conns else conn # store_ws ws' conns)"

text \<open>
  The loop of \<open>broadcast_pr_event\<close> over the items of \<open>pr_subscriptions\<close>; the state
  is the connections and the log.
\<close>

fun broadcast_loop ::
  "(nat \<times> subscription) list \<Rightarrow> string \<Rightarrow> string \<Rightarrow> pr_message \<Rightarrow>
   websocket list \<times> log_record list \<Rightarrow> websocket list \<times> log_record list" where
  "broadcast_loop [] pid rid message (conns, log) = (conns, log)"
| "broadcast_loop ((connection_id, sub) # subs) pid rid message (conns, log) =
     (if project_id sub = pid \<and> requirement_id sub = rid
      then (case find (\<lambda>conn. ws_id conn = connection_id) conns of
              None \<Rightarrow> broadcast_loop subs pid rid message (conns, log)
            | Some websocket \<Rightarrow>
                (case send_text websocket message of
                   Inr ws' \<Rightarrow> broadcast_loop subs pid rid message (store_ws ws' conns, log)
                 | Inl e \<Rightarrow> broadcast_loop subs pid rid message (conns, log @ [SendFailed e])))
      else broadcast_loop subs pid rid message (conns, log))"

definition broadcast_pr_event ::
  "connection_manager \<Rightarrow> string \<Rightarrow> string \<Rightarrow> pr_event \<Rightarrow>
   log_record list \<Rightarrow> connection_manager \<times> log_record list" where
  "broadcast_pr_event self pid rid ev log =
     (let message = \<lparr>msg_type = ''pr_status_update'', projectId = pid,
                      requirementId = rid, event_data = ev\<rparr>;
          (conns, log') = broadcast_loop (pr_subscriptions self) pid rid message
                            (active_connections self, log)
      in (self\<lparr>active_connections := conns\<rparr>, log'))"

section \<open>The run monitor\<close>

text \<open>
  What is outside the monitor: the process environment, what the service answers to
  the requests of the poll made at attempt \<open>k\<close>, and the clock read at attempt \<open>k\<close>.
\<close>

record world =
  environ :: "string \<rightharpoonup> string"
  run_net :: "nat \<Rightarrow> run_info network"
  logs_net :: "nat \<Rightarrow> logs_info network"
  now :: "nat \<Rightarrow> string"

text \<open>
  The parameters \<open>agent_run_id\<close>, \<open>project_id\<close> and \<open>requirement_id\<close> of the
  source are \<open>aid\<close>, \<open>pid\<close> and \<open>rid\<close> below (the long names are the fields of a
  subscription).

  The state of one run of \<open>monitor_agent_run_for_pr\<close>: its variable \<open>attempt\<close>, the
  manager and the log it writes to, the durations it has slept, and the events it has
  handed to \<open>broadcast_pr_event\<close>, in order.
\<close>

record monitor_state =
  attempt :: nat
  manager :: connection_manager
  log :: "log_record list"
  sleeps :: "nat list"
  emitted :: "pr_event list"

definition max_attempts :: nat where
  "max_attempts = 60"

text \<open>
  \<open>await manager.broadcast_pr_event(...)\<close> when the monitor runs alone: no other task
  changes the registry while a broadcast awaits a send, so the iteration over
  \<open>pr_subscriptions\<close> runs to its end and the broadcast, whose sends are inside its own
  \<open>try\<close>, returns. The definitions from here to \<open>monitor_agent_run_for_pr\<close> are the
  monitor run alone; the section after them has the monitor among other tasks, where a
  broadcast can raise, and the run alone is shown to be its case with no other task.
\<close>

definition emit :: "string \<Rightarrow> string \<Rightarrow> pr_event \<Rightarrow> monitor_state \<Rightarrow> monitor_state" where
  "emit pid rid ev s =
     (let (m, l) = broadcast_pr_event (manager s) pid rid ev (log s)
      in s\<lparr>manager := m, log := l, emitted := emitted s @ [ev]\<rparr>)"

text \<open>The \<open>except Exception\<close> clause of the loop.\<close>

definition on_exception :: "string \<Rightarrow> exn \<Rightarrow> monitor_state \<Rightarrow> monitor_state" where
  "on_exception aid e s =
     s\<lparr>log := log s @ [MonitorError aid e],
       sleeps := sleeps s @ [10],
       attempt := attempt s + 1\<rparr>"

datatype flow = Break | Continue

text \<open>One pass through the body of the \<open>while\<close> loop.\<close>

definition monitor_body ::
  "world \<Rightarrow> client \<Rightarrow> string \<Rightarrow> string \<Rightarrow> string \<Rightarrow> monitor_state \<Rightarrow> flow \<times> monitor_state" where
  "monitor_body w c aid pid rid s =
     (case get_agent_run c (run_net w (attempt s)) aid of
        Inl e \<Rightarrow> (Continue, on_exception aid e s)
      | Inr agent_run \<Rightarrow>
          if agent_run ''status'' = Some ''completed''
          then (case get_agent_run_logs c (logs_net w (attempt s)) aid 1 10 of
                  Inl e \<Rightarrow> (Continue, on_exception aid e s)
                | Inr logs \<Rightarrow>
                    (let pr_url = extract_pr_url_from_logs
                                    (case logs ''logs'' of None \<Rightarrow> [] | Some ls \<Rightarrow> ls)
                     in if truthy pr_url
                        then (Break,
                              (let s' = emit pid rid
                                          \<lparr>status = ''created'', prUrl = pr_url, error = None,
                                           createdAt = now w (attempt s)\<rparr> s
                               in s'\<lparr>log := log s' @ [PrCreated rid (the pr_url)]\<rparr>))
                        else (Break,
                              emit pid rid
                                \<lparr>status = ''failed'', prUrl = None,
                                 error = Some ''Implementation completed but no PR was created'',
                                 createdAt = now w (attempt s)\<rparr> s)))
          else if agent_run ''status'' = Some ''failed''
          then (Break,
                emit pid rid
                  \<lparr>status = ''failed'', prUrl = None, error = Some ''Implementation failed'',
                   createdAt = now w (attempt s)\<rparr> s)
          else (Continue, s\<lparr>sleeps := sleeps s @ [10], attempt := attempt s + 1\<rparr>))"

function monitor_loop ::
  "world \<Rightarrow> client \<Rightarrow> string \<Rightarrow> string \<Rightarrow> string \<Rightarrow> monitor_state \<Rightarrow> monitor_state" where
  "monitor_loop w c aid pid rid s =
     (if attempt s < max_attempts
      then (case monitor_body w c aid pid rid s of
              (Break, s') \<Rightarrow> s'
            | (Continue, s') \<Rightarrow> monitor_loop w c aid pid rid s')
      else s)"
  by pat_completeness auto
termination
proof (relation "measure (\<lambda>(w, c, aid, pid, rid, s). max_attempts - attempt s)")
  show "wf (measure (\<lambda>(w, c, aid, pid, rid, s). max_attempts - attempt s))"
    by simp
next
  fix w c aid pid rid s x1 x2
  assume "attempt s < max_attempts"
    and "(x1, x2) = monitor_body w c aid pid rid s"
    and "x1 = Continue"
  then show "((w, c, aid, pid, rid, x2), (w, c, aid, pid, rid, s))
             \<in> measure (\<lambda>(w, c, aid, pid, rid, s). max_attempts - attempt s)"
    by (auto simp: monitor_body_def on_exception_def Let_def split: sum.splits if_splits)
qed

definition timeout_event :: "string \<Rightarrow> pr_event" where
  "timeout_event t =
     \<lparr>status = ''failed'', prUrl = None,
      error = Some ''Monitoring timeout - PR status unknown'', createdAt = t\<rparr>"

definition monitor_agent_run_for_pr ::
  "world \<Rightarrow> client option \<Rightarrow> connection_manager \<Rightarrow> string \<Rightarrow> string \<Rightarrow> string \<Rightarrow>
   exn + monitor_state" where
  "monitor_agent_run_for_pr w cached mgr aid pid rid =
     (case get_codegen_client (environ w) cached of
        Inl e \<Rightarrow> Inl e
      | Inr c \<Rightarrow>
          (let s = monitor_loop w c aid pid rid
                     \<lparr>attempt = 0, manager = mgr, log = [], sleeps = [], emitted = []\<rparr>
           in if attempt s \<ge> max_attempts
              then Inr (emit pid rid (timeout_event (now w (attempt s))) s)
              else Inr s))"

section \<open>The run monitor among other tasks\<close>

text \<open>
  The monitor is a coroutine: while \<open>broadcast_pr_event\<close> awaits a send, the event loop
  runs other tasks. Two places of the source change the registry then: a connection
  subscribes (\<open>manager.pr_subscriptions[connection_id] = {...}\<close> in
  \<open>websocket_endpoint\<close>), and \<open>ConnectionManager.disconnect\<close>.
\<close>

datatype other_task = Subscribe nat subscription | Disconnect nat

text \<open>\<open>d[k] = v\<close> and \<open>del d[k]\<close> on the items of a dictionary, and \<open>list.remove\<close>.\<close>

fun dict_set :: "nat \<Rightarrow> subscription \<Rightarrow> (nat \<times> subscription) list \<Rightarrow> (nat \<times> subscription) list" where
  "dict_set k v [] = [(k, v)]"
| "dict_set k v ((k', v') # items) =
     (if k' = k then (k, v) # items else (k', v') # dict_set k v items)"

fun dict_del :: "nat \<Rightarrow> (nat \<times> subscription) list \<Rightarrow> (nat \<times> subscription) list" where
  "dict_del k [] = []"
| "dict_del k ((k', v') # items) = (if k' = k then items else (k', v') # dict_del k items)"

fun remove_ws :: "nat \<Rightarrow> websocket list \<Rightarrow> websocket list" where
  "remove_ws cid [] = []"
| "remove_ws cid (conn # conns) = (if ws_id conn = cid then conns else conn # remove_ws cid conns)"

definition subscribe :: "nat \<Rightarrow> subscription \<Rightarrow> connection_manager \<Rightarrow> connection_manager" where
  "subscribe connection_id sub self =
     self\<lparr>pr_subscriptions := dict_set connection_id sub (pr_subscriptions self)\<rparr>"

definition disconnect :: "nat \<Rightarrow> connection_manager \<Rightarrow> connection_manager" where
  "disconnect connection_id self =
     self\<lparr>active_connections := remove_ws connection_id (active_connections self),
          pr_subscriptions := dict_del connection_id (pr_subscriptions self)\<rparr>"

fun run_other :: "other_task \<Rightarrow> connection_manager \<Rightarrow> connection_manager" where
  "run_other (Subscribe connection_id sub) self = subscribe connection_id sub self"
| "run_other (Disconnect connection_id) self = disconnect connection_id self"

text \<open>
  The \<open>for\<close> loop of \<open>broadcast_pr_event\<close> as the dictionary iterator runs it. The
  iterator remembers the number of items it started with (\<open>used\<close>) and its position
  \<open>i\<close>; each step first compares the dictionary's present size with \<open>used\<close> and raises
  \<open>RuntimeError\<close> (dictionary changed size during iteration) when they differ, outside
  the \<open>try\<close> that encloses the send. \<open>others n\<close> is the task, if any, that the event
  loop runs while the \<open>n\<close>-th awaited send of this broadcast is suspended. The result
  is the exception raised, if any, with the manager and the log as they are then.
\<close>

function broadcast_iter ::
  "(nat \<Rightarrow> other_task option) \<Rightarrow> string \<Rightarrow> string \<Rightarrow> pr_message \<Rightarrow> nat \<Rightarrow> nat \<Rightarrow> nat \<Rightarrow>
   connection_manager \<times> log_record list \<Rightarrow>
   exn option \<times> connection_manager \<times> log_record list" where
  "broadcast_iter others pid rid message used i n (self, lg) =
     (if length (pr_subscriptions self) \<noteq> used then (Some RuntimeError, self, lg)
      else if length (pr_subscriptions self) \<le> i then (None, self, lg)
      else (case pr_subscriptions self ! i of
              (connection_id, sub) \<Rightarrow>
                if project_id sub = pid \<and> requirement_id sub = rid
                then (case find (\<lambda>conn. ws_id conn = connection_id) (active_connections self) of
                        None \<Rightarrow> broadcast_iter others pid rid message used (i + 1) n (self, lg)
                      | Some websocket \<Rightarrow>
                          (case send_text websocket message of
                             Inr ws' \<Rightarrow>
                               broadcast_iter others pid rid message used (i + 1) (n + 1)
                                 (case others n of
                                    None \<Rightarrow>
                                      self\<lparr>active_connections :=
                                             store_ws ws' (active_connections self)\<rparr>
                                  | Some t \<Rightarrow>
                                      run_other t
                                        (self\<lparr>active_connections :=
                                                store_ws ws' (active_connections self)\<rparr>),
                                  lg)
                           | Inl e \<Rightarrow>
                               broadcast_iter others pid rid message used (i + 1) (n + 1)
                                 (case others n of None \<Rightarrow> self | Some t \<Rightarrow> run_other t self,
                                  lg @ [SendFailed e])))
                else broadcast_iter others pid rid message used (i + 1) n (self, lg)))"
  by pat_completeness auto
termination
  by (relation "measure (\<lambda>(others, pid, rid, message, used, i, n, self, lg). used - i)") auto

definition broadcast_pr_event_conc ::
  "(nat \<Rightarrow> other_task option) \<Rightarrow> connection_manager \<Rightarrow> string \<Rightarrow> string \<Rightarrow> pr_event \<Rightarrow>
   log_record list \<Rightarrow> exn option \<times> connection_manager \<times> log_record list" where
  "broadcast_pr_event_conc others self pid rid ev lg =
     broadcast_iter others pid rid
       \<lparr>msg_type = ''pr_status_update'', projectId = pid, requirementId = rid, event_data = ev\<rparr>
       (length (pr_subscriptions self)) 0 0 (self, lg)"

definition emit_conc ::
  "(nat \<Rightarrow> other_task option) \<Rightarrow> string \<Rightarrow> string \<Rightarrow> pr_event \<Rightarrow> monitor_state \<Rightarrow>
   exn option \<times> monitor_state" where
  "emit_conc others pid rid ev s =
     (case broadcast_pr_event_conc others (manager s) pid rid ev (log s) of
        (raised, m, l) \<Rightarrow> (raised, s\<lparr>manager := m, log := l, emitted := emitted s @ [ev]\<rparr>))"

text \<open>
  One pass through the body of the \<open>while\<close> loop. \<open>others k n\<close> is the task that runs
  during the \<open>n\<close>-th awaited send of the broadcast made at attempt \<open>k\<close>. The broadcasts
  are inside the \<open>try\<close>: an exception of one is handled by the \<open>except\<close> clause like an
  exception of a request, and the statements after the broadcast (the \<open>break\<close>) are
  skipped.
\<close>

definition monitor_body_conc ::
  "world \<Rightarrow> (nat \<Rightarrow> nat \<Rightarrow> other_task option) \<Rightarrow> client \<Rightarrow> string \<Rightarrow> string \<Rightarrow> string \<Rightarrow>
   monitor_state \<Rightarrow> flow \<times> monitor_state" where
  "monitor_body_conc w others c aid pid rid s =
     (case get_agent_run c (run_net w (attempt s)) aid of
        Inl e \<Rightarrow> (Continue, on_exception aid e s)
      | Inr agent_run \<Rightarrow>
          if agent_run ''status'' = Some ''completed''
          then (case get_agent_run_logs c (logs_net w (attempt s)) aid 1 10 of
                  Inl e \<Rightarrow> (Continue, on_exception aid e s)
                | Inr logs \<Rightarrow>
                    (let pr_url = extract_pr_url_from_logs
                                    (case logs ''logs'' of None \<Rightarrow> [] | Some ls \<Rightarrow> ls)
                     in if truthy pr_url
                        then (case emit_conc (others (attempt s)) pid rid
                                     \<lparr>status = ''created'', prUrl = pr_url, error = None,
                                      createdAt = now w (attempt s)\<rparr> s of
                                (Some e, s') \<Rightarrow> (Continue, on_exception aid e s')
                              | (None, s') \<Rightarrow>
                                  (Break, s'\<lparr>log := log s' @ [PrCreated rid (the pr_url)]\<rparr>))
                        else (case emit_conc (others (attempt s)) pid rid
                                     \<lparr>status = ''failed'', prUrl = None,
                                      error = Some ''Implementation completed but no PR was created'',
                                      createdAt = now w (attempt s)\<rparr> s of
                                (Some e, s') \<Rightarrow> (Continue, on_exception aid e s')
                              | (None, s') \<Rightarrow> (Break, s'))))
          else if agent_run ''status'' = Some ''failed''
          then (case emit_conc (others (attempt s)) pid rid
                       \<lparr>status = ''failed'', prUrl = None, error = Some ''Implementation failed'',
                        createdAt = now w (attempt s)\<rparr> s of
                  (Some e, s') \<Rightarrow> (Continue, on_exception aid e s')
                | (None, s') \<Rightarrow> (Break, s'))
          else (Continue, s\<lparr>sleeps := sleeps s @ [10], attempt := attempt s + 1\<rparr>))"

function monitor_loop_conc ::
  "world \<Rightarrow> (nat \<Rightarrow> nat \<Rightarrow> other_task option) \<Rightarrow> client \<Rightarrow> string \<Rightarrow> string \<Rightarrow> string \<Rightarrow>
   monitor_state \<Rightarrow> monitor_state" where
  "monitor_loop_conc w others c aid pid rid s =
     (if attempt s < max_attempts
      then (case monitor_body_conc w others c aid pid rid s of
              (Break, s') \<Rightarrow> s'
            | (Continue, s') \<Rightarrow> monitor_loop_conc w others c aid pid rid s')
      else s)"
  by pat_completeness auto
termination
proof (relation "measure (\<lambda>(w, others, c, aid, pid, rid, s). max_attempts - attempt s)")
  show "wf (measure (\<lambda>(w, others, c, aid, pid, rid, s). max_attempts - attempt s))"
    by simp
next
  fix w others c aid pid rid s x1 x2
  assume "attempt s < max_attempts"
    and "(x1, x2) = monitor_body_conc w others c aid pid rid s"
    and "x1 = Continue"
  then show "((w, others, c, aid, pid, rid, x2), (w, others, c, aid, pid, rid, s))
             \<in> measure (\<lambda>(w, others, c, aid, pid, rid, s). max_attempts - attempt s)"
    by (auto simp: monitor_body_conc_def emit_conc_def on_exception_def Let_def
             split: sum.splits if_splits prod.splits option.splits)
qed

text \<open>
  The timeout broadcast is after the loop, outside the \<open>try\<close>: an exception of it
  leaves the function.
\<close>

definition monitor_agent_run_for_pr_conc ::
  "world \<Rightarrow> (nat \<Rightarrow> nat \<Rightarrow> other_task option) \<Rightarrow> client option \<Rightarrow> connection_manager \<Rightarrow>
   string \<Rightarrow> string \<Rightarrow> string \<Rightarrow> exn + monitor_state" where
  "monitor_agent_run_for_pr_conc w others cached mgr aid pid rid =
     (case get_codegen_client (environ w) cached of
        Inl e \<Rightarrow> Inl e
      | Inr c \<Rightarrow>
          (let s = monitor_loop_conc w others c aid pid rid
                     \<lparr>attempt = 0, manager = mgr, log = [], sleeps = [], emitted = []\<rparr>
           in if attempt s \<ge> max_attempts
              then (case emit_conc (others (attempt s)) pid rid
                           (timeout_event (now w (attempt s))) s of
                      (Some e, s') \<Rightarrow> Inl e
                    | (None, s') \<Rightarrow> Inr s')
              else Inr s))"

section \<open>Notions used in the statements\<close>

text \<open>
  Whether the connection \<open>cid\<close> holds a subscription for the key \<open>(pid, rid)\<close>, and
  whether a send to it fails.
\<close>

definition subscribed :: "(nat \<times> subscription) list \<Rightarrow> string \<Rightarrow> string \<Rightarrow> nat \<Rightarrow> bool" where
  "subscribed subs pid rid cid =
     (case map_of subs cid of
        None \<Rightarrow> False
      | Some sub \<Rightarrow> project_id sub = pid \<and> requirement_id sub = rid)"

definition send_fails :: "websocket list \<Rightarrow> nat \<Rightarrow> bool" where
  "send_fails conns cid =
     (case find (\<lambda>conn. ws_id conn = cid) conns of
        None \<Rightarrow> False
      | Some ws \<Rightarrow> peer_gone ws)"

text \<open>
  What a broadcast for the key \<open>(pid, rid)\<close> does to one connection: the message is
  appended to what its peer has been sent when the connection is subscribed to the key
  and its peer has not gone.
\<close>

definition receive :: "(nat \<times> subscription) list \<Rightarrow> string \<Rightarrow> string \<Rightarrow> pr_message \<Rightarrow>
    websocket \<Rightarrow> websocket" where
  "receive subs pid rid message ws =
     (if subscribed subs pid rid (ws_id ws) \<and> \<not> peer_gone ws
      then ws\<lparr>sent := sent ws @ [message]\<rparr> else ws)"

definition pr_status_update :: "string \<Rightarrow> string \<Rightarrow> pr_event \<Rightarrow> pr_message" where
  "pr_status_update pid rid ev =
     \<lparr>msg_type = ''pr_status_update'', projectId = pid, requirementId = rid, event_data = ev\<rparr>"

text \<open>
  The terminal classification of the poll made at attempt \<open>k\<close>: the event a poll with a
  terminal outcome leads to, and \<open>None\<close> for a poll after which the monitor polls again.
\<close>

definition classify :: "world \<Rightarrow> client \<Rightarrow> string \<Rightarrow> nat \<Rightarrow> pr_event option" where
  "classify w c aid k =
     (case get_agent_run c (run_net w k) aid of
        Inl e \<Rightarrow> None
      | Inr agent_run \<Rightarrow>
          if agent_run ''status'' = Some ''completed''
          then (case get_agent_run_logs c (logs_net w k) aid 1 10 of
                  Inl e \<Rightarrow> None
                | Inr logs \<Rightarrow>
                    (case extract_pr_url_from_logs
                            (case logs ''logs'' of None \<Rightarrow> [] | Some ls \<Rightarrow> ls) of
                       Some url \<Rightarrow>
                         Some (if url \<noteq> []
                               then \<lparr>status = ''created'', prUrl = Some url, error = None,
                                     createdAt = now w k\<rparr>
                               else \<lparr>status = ''failed'', prUrl = None,
                                     error = Some ''Implementation completed but no PR was created'',
                                     createdAt = now w k\<rparr>)
                     | None \<Rightarrow>
                         Some \<lparr>status = ''failed'', prUrl = None,
                               error = Some ''Implementation completed but no PR was created'',
                               createdAt = now w k\<rparr>))
          else if agent_run ''status'' = Some ''failed''
          then Some \<lparr>status = ''failed'', prUrl = None, error = Some ''Implementation failed'',
                     createdAt = now w k\<rparr>
          else None)"

text \<open>The exception, if any, that the poll made at attempt \<open>k\<close> raises.\<close>

definition poll_error :: "world \<Rightarrow> client \<Rightarrow> string \<Rightarrow> nat \<Rightarrow> exn option" where
  "poll_error w c aid k =
     (case get_agent_run c (run_net w k) aid of
        Inl e \<Rightarrow> Some e
      | Inr agent_run \<Rightarrow>
          if agent_run ''status'' = Some ''completed''
          then (case get_agent_run_logs c (logs_net w k) aid 1 10 of
                  Inl e \<Rightarrow> Some e
                | Inr logs \<Rightarrow> None)
          else None)"

text \<open>The poll made at attempt \<open>k\<close> returns a status that is neither completed nor failed.\<close>

definition non_terminal_status :: "world \<Rightarrow> client \<Rightarrow> string \<Rightarrow> nat \<Rightarrow> bool" where
  "non_terminal_status w c aid k =
     (case get_agent_run c (run_net w k) aid of
        Inl e \<Rightarrow> False
      | Inr agent_run \<Rightarrow>
          agent_run ''status'' \<noteq> Some ''completed'' \<and> agent_run ''status'' \<noteq> Some ''failed'')"

section \<open>Example values\<close>

definition ex_client :: client where
  "ex_client = \<lparr>org_id = ''org'', token = ''tok'', base_url = ''https://api.codegen.com/v1''\<rparr>"

text \<open>
  A service that answers the status request of attempt \<open>k\<close> with the status
  \<open>statuses k\<close> (with no response when that is \<open>None\<close>) and every logs request with the
  lines \<open>lines\<close>.
\<close>

definition ex_world :: "(nat \<Rightarrow> string option) \<Rightarrow> string list \<Rightarrow> world" where
  "ex_world statuses lines =
     \<lparr>environ = Map.empty,
      run_net = (\<lambda>k method url data params.
                   case statuses k of
                     None \<Rightarrow> NoReply
                   | Some st \<Rightarrow> Reply 200 (Some [''status'' \<mapsto> st])),
      logs_net = (\<lambda>k method url data params. Reply 200 (Some [''logs'' \<mapsto> lines])),
      now = (\<lambda>k. ''2025-01-01T00:00:00'')\<rparr>"

definition ex_sub :: "string \<Rightarrow> string \<Rightarrow> subscription" where
  "ex_sub pid rid = \<lparr>project_id = pid, requirement_id = rid, agent_run_id = ''run1''\<rparr>"

text \<open>
  Four connections: 1 and 2 are subscribed to the key \<open>(p1, r1)\<close>, 3 to \<open>(p1, r2)\<close>, and
  4 to \<open>(p1, r1)\<close> with a peer that has gone.
\<close>

definition ex_manager :: connection_manager where
  "ex_manager =
     \<lparr>active_connections =
        [\<lparr>ws_id = 1, peer_gone = False, sent = []\<rparr>,
         \<lparr>ws_id = 4, peer_gone = True, sent = []\<rparr>,
         \<lparr>ws_id = 2, peer_gone = False, sent = []\<rparr>,
         \<lparr>ws_id = 3, peer_gone = False, sent = []\<rparr>],
      pr_subscriptions =
        [(1, ex_sub ''p1'' ''r1''), (4, ex_sub ''p1'' ''r1''),
         (3, ex_sub ''p1'' ''r2''), (2, ex_sub ''p1'' ''r1'')]\<rparr>"

text \<open>
  Two connections, of which 1 is subscribed to the key \<open>(p1, r1)\<close>; and a schedule in
  which connection 2 subscribes to another key during the first send of the broadcast
  made at attempt 0, and no other task runs otherwise.
\<close>

definition ex_manager_one :: connection_manager where
  "ex_manager_one =
     \<lparr>active_connections =
        [\<lparr>ws_id = 1, peer_gone = False, sent = []\<rparr>,
         \<lparr>ws_id = 2, peer_gone = False, sent = []\<rparr>],
      pr_subscriptions = [(1, ex_sub ''p1'' ''r1'')]\<rparr>"

definition ex_others :: "nat \<Rightarrow> nat \<Rightarrow> other_task option" where
  "ex_others k n = (if k = 0 \<and> n = 0 then Some (Subscribe 2 (ex_sub ''p2'' ''r2'')) else None)"

text \<open>
  A service whose run has completed with a pull request in its logs, and the event
  the monitor makes of that.
\<close>

definition ex_world_completed :: world where
  "ex_world_completed =
     ex_world (\<lambda>k. Some ''completed'') [''Created pull request https://github.com/o/r/pull/7'']"

definition ex_created :: pr_event where
  "ex_created =
     \<lparr>status = ''created'', prUrl = Some ''https://github.com/o/r/pull/7'', error = None,
      createdAt = ''2025-01-01T00:00:00''\<rparr>"

definition ex_state :: monitor_state where
  "ex_state = \<lparr>attempt = 0, manager = ex_manager, log = [], sleeps = [], emitted = []\<rparr>"

section \<open>Properties of plan extraction\<close>

lemma plan_loop_skip:
  "\<forall>x\<in>set pre. \<not> is_marker x \<Longrightarrow>
   plan_loop (pre @ rest) plan_content False = plan_loop rest plan_content False"
  by (induction pre) (simp_all add: is_marker_def)

lemma plan_loop_marker:
  "is_marker m \<Longrightarrow> plan_loop (m # rest) plan_content b = plan_loop rest plan_content True"
  by (simp add: is_marker_def)

lemma plan_loop_section:
  "\<forall>x\<in>set ns. \<not> is_blank x \<Longrightarrow>
   plan_loop (ns @ rest) plan_content True =
   plan_loop rest (plan_content @ filter (\<lambda>x. \<not> is_marker x) ns) True"
  by (induction ns arbitrary: plan_content) (simp_all add: is_marker_def is_blank_def)

lemma str_in_set: "str_in needle hay \<Longrightarrow> set needle \<subseteq> set hay"
proof (induction hay)
  case Nil
  then show ?case by simp
next
  case (Cons c cs)
  then show ?case
    using set_mono_prefix [of needle "c # cs"] by auto
qed

lemma strip_Nil_spaces: "strip l = [] \<Longrightarrow> \<forall>c\<in>set l. is_space c"
proof -
  assume "strip l = []"
  then have "dropWhile is_space (rev (dropWhile is_space l)) = []"
    by (simp add: strip_def)
  then have "\<forall>c\<in>set (rev (dropWhile is_space l)). is_space c"
    by simp
  then have "dropWhile is_space l = []"
    by (metis dropWhile_eq_Nil_conv dropWhile_idem set_rev)
  then show ?thesis
    by simp
qed

lemma lower_char_i: "lower_char c = CHR ''i'' \<Longrightarrow> c = CHR ''i'' \<or> c = CHR ''I''"
  by (simp add: lower_char_def upper_chars_def lower_chars_def split: if_splits)

lemma blank_not_marker: "is_blank l \<Longrightarrow> \<not> is_marker l"
proof
  assume b: "is_blank l" and m: "is_marker l"
  from m have "CHR ''i'' \<in> set (lower l)"
    using str_in_set [of "''implementation plan''" "lower l"] by (simp add: is_marker_def)
  then obtain c where c: "c \<in> set l" "lower_char c = CHR ''i''"
    by (auto simp: lower_def)
  from b c(1) have "is_space c"
    using strip_Nil_spaces [of l] by (simp add: is_blank_def)
  with lower_char_i [OF c(2)] show False
    by (auto simp: is_space_def)
qed

lemma plan_loop_blank:
  "is_blank b \<Longrightarrow> plan_loop (b # post) plan_content True = plan_content"
  using blank_not_marker [of b] by (simp add: is_marker_def is_blank_def)

lemma default_plan_not_empty: "default_plan \<noteq> []"
  by (simp add: default_plan_def)

lemma plan_loop_markers:
  "\<forall>x\<in>set ms. is_marker x \<Longrightarrow>
   plan_loop (ms @ rest) plan_content True = plan_loop rest plan_content True"
  by (induction ms) (simp_all add: is_marker_def)

lemma plan_loop_no_marker:
  "\<forall>l\<in>set logs. \<not> is_marker l \<Longrightarrow> plan_loop logs plan_content False = plan_content"
  using plan_loop_skip [of logs "[]" plan_content] by simp

text \<open>
  Claim C8. When no line of the logs contains ``implementation plan'' in any letter
  case, \<open>extract_plan_from_logs\<close> returns the default plan, as an ordinary result.
\<close>

theorem extract_plan_no_marker:
  "\<forall>l\<in>set logs. \<not> is_marker l \<Longrightarrow> extract_plan_from_logs logs = default_plan"
  by (simp add: extract_plan_from_logs_def plan_loop_no_marker)

theorem extract_plan_no_marker_witness:
  "\<not> is_marker ''Step 1'' \<and> \<not> is_marker '''' \<and> \<not> is_marker ''done''
   \<and> extract_plan_from_logs [''Step 1'', '''', ''done''] = default_plan"
proof -
  have h: "\<forall>l\<in>set [''Step 1'', '''', ''done'']. \<not> is_marker l"
    by code_simp
  from extract_plan_no_marker [OF h] h show ?thesis by simp
qed

text \<open>
  Claim C4, as amended. When the first marker line is followed by \<open>N\<close> non-blank lines
  and then a blank line, \<open>extract_plan_from_logs\<close> returns those of the \<open>N\<close> lines that
  do not themselves contain the marker, joined by newlines, without the marker line,
  the blank line or anything after it; when there is no such line it returns the
  default plan.
\<close>

theorem extract_plan_section:
  assumes "\<forall>l\<in>set pre. \<not> is_marker l" and "is_marker m"
    and "\<forall>l\<in>set ns. \<not> is_blank l" and "is_blank b"
  shows "extract_plan_from_logs (pre @ m # ns @ b # post) =
           (if filter (\<lambda>l. \<not> is_marker l) ns = [] then default_plan
            else join newline (filter (\<lambda>l. \<not> is_marker l) ns))"
proof -
  have "plan_loop (pre @ m # ns @ b # post) [] False = plan_loop (m # ns @ b # post) [] False"
    using assms(1) by (rule plan_loop_skip)
  also have "\<dots> = plan_loop (ns @ b # post) [] True"
    using assms(2) by (rule plan_loop_marker)
  also have "\<dots> = plan_loop (b # post) ([] @ filter (\<lambda>l. \<not> is_marker l) ns) True"
    using assms(3) by (rule plan_loop_section)
  also have "\<dots> = filter (\<lambda>l. \<not> is_marker l) ns"
    using plan_loop_blank [OF assms(4)] by simp
  finally show ?thesis
    by (simp add: extract_plan_from_logs_def)
qed

theorem extract_plan_section_witness:
  "extract_plan_from_logs ([''log''] @ ''Implementation Plan:'' # [''Step 1'', ''Step 2''] @ '' '' # [''tail''])
     = join newline [''Step 1'', ''Step 2'']
   \<and> extract_plan_from_logs
         ([''log''] @ ''Implementation Plan:'' # [] @ [CHR 0xA0] # [''Step 1'', ''''])
     = default_plan"
proof -
  have 1: "\<forall>l\<in>set [''log'']. \<not> is_marker l" by code_simp
  have 2: "is_marker ''Implementation Plan:''" by code_simp
  have 3: "\<forall>l\<in>set [''Step 1'', ''Step 2'']. \<not> is_blank l" by code_simp
  have 4: "is_blank '' ''" by code_simp
  have 5: "filter (\<lambda>l. \<not> is_marker l) [''Step 1'', ''Step 2''] = [''Step 1'', ''Step 2'']"
    by code_simp
  have 6: "\<forall>l\<in>set ([] :: string list). \<not> is_blank l" by simp
  have 7: "is_blank [CHR 0xA0]" by code_simp
  have a: "extract_plan_from_logs
             ([''log''] @ ''Implementation Plan:'' # [''Step 1'', ''Step 2''] @ '' '' # [''tail''])
           = join newline [''Step 1'', ''Step 2'']"
    using extract_plan_section [OF 1 2 3 4, of "[''tail'']"] by (simp only: 5) simp
  have b: "extract_plan_from_logs
             ([''log''] @ ''Implementation Plan:'' # [] @ [CHR 0xA0] # [''Step 1'', ''''])
           = default_plan"
    using extract_plan_section [OF 1 2 6 7, of "[''Step 1'', '''']"] by simp
  from a b show ?thesis by (rule conjI)
qed

text \<open>
  The claim as stated, that exactly the \<open>N\<close> lines are returned, fails when one of
  them contains the marker text: that line is left out.
\<close>

theorem extract_plan_section_counterexample:
  "is_marker ''Implementation Plan:''
   \<and> \<not> is_blank ''Step 1'' \<and> \<not> is_blank ''see implementation plan'' \<and> \<not> is_blank ''Step 2''
   \<and> is_blank ''''
   \<and> extract_plan_from_logs
        [''Implementation Plan:'', ''Step 1'', ''see implementation plan'', ''Step 2'', '''']
       = join newline [''Step 1'', ''Step 2'']
   \<and> extract_plan_from_logs
        [''Implementation Plan:'', ''Step 1'', ''see implementation plan'', ''Step 2'', '''']
       \<noteq> join newline [''Step 1'', ''see implementation plan'', ''Step 2'']"
  by code_simp

text \<open>
  Claim C9. When the first marker line is the last line, or the line after it is blank
  (with any further marker lines in between), nothing is accumulated and
  \<open>extract_plan_from_logs\<close> returns the default plan, which is not the empty string.
\<close>

theorem extract_plan_empty_section:
  assumes "\<forall>l\<in>set pre. \<not> is_marker l" and "is_marker m"
    and "\<forall>l\<in>set ms. is_marker l" and "rest = [] \<or> is_blank (hd rest)"
  shows "extract_plan_from_logs (pre @ m # ms @ rest) = default_plan \<and> default_plan \<noteq> ''''"
proof -
  have "plan_loop (pre @ m # ms @ rest) [] False = plan_loop (m # ms @ rest) [] False"
    using assms(1) by (rule plan_loop_skip)
  also have "\<dots> = plan_loop (ms @ rest) [] True"
    using assms(2) by (rule plan_loop_marker)
  also have "\<dots> = plan_loop rest [] True"
    using assms(3) by (rule plan_loop_markers)
  also have "\<dots> = []"
  proof (cases rest)
    case Nil
    then show ?thesis by simp
  next
    case (Cons b post)
    with assms(4) have "is_blank b" by simp
    then show ?thesis unfolding Cons by (rule plan_loop_blank)
  qed
  finally show ?thesis
    by (simp add: extract_plan_from_logs_def default_plan_not_empty)
qed

theorem extract_plan_empty_section_witness:
  "extract_plan_from_logs ([''log''] @ ''Implementation Plan:'' # [] @ []) = default_plan
   \<and> extract_plan_from_logs ([''log''] @ ''Implementation Plan:'' # [] @ ['' '', ''Step 1'']) = default_plan
   \<and> extract_plan_from_logs ([''log''] @ ''Implementation Plan:'' # [] @ [[CHR 0xA0, CHR 0x85], ''Step 1''])
       = default_plan
   \<and> default_plan \<noteq> ''''"
proof -
  have 1: "\<forall>l\<in>set [''log'']. \<not> is_marker l" by code_simp
  have 2: "is_marker ''Implementation Plan:''" by code_simp
  have 3: "\<forall>l\<in>set []. is_marker l" by simp
  have 4: "[] = [] \<or> is_blank (hd ([] :: string list))" by simp
  have 5: "['' '', ''Step 1''] = [] \<or> is_blank (hd ['' '', ''Step 1''])" by code_simp
  have 6: "[[CHR 0xA0, CHR 0x85], ''Step 1''] = []
           \<or> is_blank (hd [[CHR 0xA0, CHR 0x85], ''Step 1''])"
    by code_simp
  show ?thesis
    using extract_plan_empty_section [OF 1 2 3 4] extract_plan_empty_section [OF 1 2 3 5]
      extract_plan_empty_section [OF 1 2 3 6]
    by simp
qed

text \<open>
  Claim C10. When the first marker line is followed by non-blank lines only, up to the
  end of the logs, the loop accumulates all of them that do not contain the marker
  text, and when there is at least one, \<open>extract_plan_from_logs\<close> returns them joined
  by newlines: no blank line is needed.
\<close>

theorem extract_plan_to_end:
  assumes "\<forall>l\<in>set pre. \<not> is_marker l" and "is_marker m"
    and "\<forall>l\<in>set ns. \<not> is_blank l"
  shows "plan_loop (pre @ m # ns) [] False = filter (\<lambda>l. \<not> is_marker l) ns
       \<and> (filter (\<lambda>l. \<not> is_marker l) ns \<noteq> [] \<longrightarrow>
            extract_plan_from_logs (pre @ m # ns) = join newline (filter (\<lambda>l. \<not> is_marker l) ns))"
proof -
  have "plan_loop (pre @ m # ns) [] False = plan_loop (m # ns) [] False"
    using assms(1) by (rule plan_loop_skip)
  also have "\<dots> = plan_loop (ns @ []) [] True"
    using plan_loop_marker [OF assms(2), of ns "[]" False] by simp
  also have "\<dots> = plan_loop [] ([] @ filter (\<lambda>l. \<not> is_marker l) ns) True"
    using assms(3) by (rule plan_loop_section)
  finally have "plan_loop (pre @ m # ns) [] False = filter (\<lambda>l. \<not> is_marker l) ns"
    by simp
  then show ?thesis
    by (simp add: extract_plan_from_logs_def)
qed

theorem extract_plan_to_end_witness:
  "extract_plan_from_logs ([''log''] @ ''Implementation Plan:'' # [''Step 1'', ''The implementation plan'', ''Step 2''])
     = join newline [''Step 1'', ''Step 2'']"
proof -
  have 1: "\<forall>l\<in>set [''log'']. \<not> is_marker l" by code_simp
  have 2: "is_marker ''Implementation Plan:''" by code_simp
  have 3: "\<forall>l\<in>set [''Step 1'', ''The implementation plan'', ''Step 2'']. \<not> is_blank l"
    by code_simp
  have 5: "filter (\<lambda>l. \<not> is_marker l) [''Step 1'', ''The implementation plan'', ''Step 2'']
             = [''Step 1'', ''Step 2'']"
    by code_simp
  show ?thesis
    using extract_plan_to_end [OF 1 2 3] by (simp only: 5) simp
qed

section \<open>Properties of pull-request URL extraction\<close>

lemma str_in_sublist: "str_in needle hay \<longleftrightarrow> sublist needle hay"
proof (induction hay)
  case Nil
  then show ?case by simp
next
  case (Cons c cs)
  then show ?case by (cases needle) (simp_all add: sublist_Cons_right)
qed

lemma re_match_lit:
  "re_match (lit p @ r) s =
     (if prefix p s then map_option ((@) p) (re_match r (drop (length p) s)) else None)"
proof (induction p arbitrary: s)
  case Nil
  then show ?case by (cases "re_match r s") (simp_all add: lit_def)
next
  case (Cons a p)
  have IH: "\<And>s. re_match (lit p @ r) s =
     (if prefix p s then map_option ((@) p) (re_match r (drop (length p) s)) else None)"
    using Cons by simp
  show ?case
  proof (cases s)
    case Nil
    then show ?thesis by (simp add: lit_def)
  next
    case (Cons c cs)
    have "re_match (lit (a # p) @ r) (c # cs) =
          (if c = a then map_option ((#) c) (re_match (lit p @ r) cs) else None)"
      by (simp add: lit_def)
    then show ?thesis
      using Cons IH [of cs] by (auto simp: option.map_comp comp_def)
  qed
qed

lemma re_match_many_last:
  "re_match [(k, Many)] s =
     (if takeWhile (cls_ok k) s = [] then None else Some (takeWhile (cls_ok k) s))"
  by (induction s) auto

lemma re_match_many_then_lit:
  assumes "\<not> cls_ok k d"
  shows "re_match ((k, Many) # (Lit d, Once) # r) s =
     (case dropWhile (cls_ok k) s of
        [] \<Rightarrow> None
      | e # t \<Rightarrow>
          if takeWhile (cls_ok k) s \<noteq> [] \<and> e = d
          then map_option (\<lambda>m. takeWhile (cls_ok k) s @ d # m) (re_match r t)
          else None)"
proof (induction s)
  case Nil
  then show ?case by simp
next
  case (Cons c cs)
  note IH = Cons.IH
  show ?case
  proof (cases "cls_ok k c")
    case False
    then show ?thesis by simp
  next
    case ok: True
    have hd_fail: "re_match ((Lit d, Once) # r) cs = None" if "takeWhile (cls_ok k) cs \<noteq> []"
    proof (cases cs)
      case Nil
      then show ?thesis by simp
    next
      case (Cons c' cs')
      with that have "cls_ok k c'" by (auto split: if_splits)
      with assms have "c' \<noteq> d" by auto
      then show ?thesis using Cons by simp
    qed
    show ?thesis
    proof (cases "dropWhile (cls_ok k) cs")
      case dw: Nil
      have many: "re_match ((k, Many) # (Lit d, Once) # r) cs = None"
        by (simp add: IH dw)
      have "re_match ((Lit d, Once) # r) cs = None"
      proof (cases cs)
        case Nil
        then show ?thesis by simp
      next
        case (Cons c' cs')
        with dw have "takeWhile (cls_ok k) cs \<noteq> []"
          by (auto split: if_splits)
        then show ?thesis by (rule hd_fail)
      qed
      with many show ?thesis using ok by (simp add: dw)
    next
      case dw: (Cons e t)
      show ?thesis
      proof (cases "takeWhile (cls_ok k) cs = []")
        case tw: True
        have cs: "cs = e # t"
          using takeWhile_dropWhile_id [of "cls_ok k" cs] by (simp add: dw tw)
        have ne: "\<not> cls_ok k e"
          using tw cs by (auto split: if_splits)
        have "re_match ((k, Many) # (Lit d, Once) # r) cs = None"
          by (simp add: IH dw tw)
        then show ?thesis
          using ok ne assms by (simp add: cs option.map_comp comp_def)
      next
        case tw: False
        show ?thesis
        proof (cases "e = d \<and> re_match r t \<noteq> None")
          case True
          then obtain m where m: "re_match r t = Some m" by auto
          have "re_match ((k, Many) # (Lit d, Once) # r) cs = Some (takeWhile (cls_ok k) cs @ d # m)"
            using True by (simp add: IH dw tw m)
          then show ?thesis
            using ok True by (simp add: dw m)
        next
          case False
          have "re_match ((k, Many) # (Lit d, Once) # r) cs = None"
            using False by (auto simp add: IH dw tw)
          then show ?thesis
            using ok False hd_fail [OF tw] by (auto simp add: dw)
        qed
      qed
    qed
  qed
qed

lemma re_match_pr_url_sound:
  assumes "re_match pr_url_regex s = Some u"
  shows "\<exists>owner repo ds rest.
           s = ''https://github.com/'' @ owner @ ''/'' @ repo @ ''/pull/'' @ ds @ rest
         \<and> u = ''https://github.com/'' @ owner @ ''/'' @ repo @ ''/pull/'' @ ds
         \<and> owner \<noteq> [] \<and> CHR ''/'' \<notin> set owner
         \<and> repo \<noteq> [] \<and> CHR ''/'' \<notin> set repo
         \<and> ds \<noteq> [] \<and> list_all is_digit ds
         \<and> (rest = [] \<or> \<not> is_digit (hd rest))"
proof -
  define P where "P = ''https://github.com/''"
  define R3 where "R3 = lit ''pull/'' @ [(Digit, Many)]"
  define R2 where "R2 = (NotLit CHR ''/'', Many) # (Lit CHR ''/'', Once) # R3"
  define R1 where "R1 = (NotLit CHR ''/'', Many) # (Lit CHR ''/'', Once) # R2"
  define ns where "ns = cls_ok (NotLit CHR ''/'')"
  have ns: "\<not> cls_ok (NotLit CHR ''/'') CHR ''/''" by simp
  have cd: "cls_ok Digit = is_digit" by auto
  have re: "pr_url_regex = lit P @ R1"
    by (simp add: pr_url_regex_def P_def R1_def R2_def R3_def lit_def)
  from assms have pre: "prefix P s"
    and "map_option ((@) P) (re_match R1 (drop (length P) s)) = Some u"
    by (simp_all add: re re_match_lit split: if_splits)
  then obtain m1 where m1: "re_match R1 (drop (length P) s) = Some m1" and u: "u = P @ m1"
    by auto
  define s1 where "s1 = drop (length P) s"
  have s: "s = P @ s1"
    using pre by (auto simp: s1_def prefix_def)
  from m1 obtain t1 m2 where dw1: "dropWhile ns s1 = CHR ''/'' # t1"
    and tw1: "takeWhile ns s1 \<noteq> []"
    and m2: "re_match R2 t1 = Some m2" and m1': "m1 = takeWhile ns s1 @ CHR ''/'' # m2"
    unfolding R1_def s1_def [symmetric] re_match_many_then_lit [OF ns] ns_def [symmetric]
    by (auto split: list.splits if_splits)
  from m2 obtain t2 m3 where dw2: "dropWhile ns t1 = CHR ''/'' # t2"
    and tw2: "takeWhile ns t1 \<noteq> []"
    and m3: "re_match R3 t2 = Some m3" and m2': "m2 = takeWhile ns t1 @ CHR ''/'' # m3"
    unfolding R2_def re_match_many_then_lit [OF ns] ns_def [symmetric]
    by (auto split: list.splits if_splits)
  have pre3: "prefix ''pull/'' t2"
    using m3 unfolding R3_def re_match_lit by (cases "prefix ''pull/'' t2") simp_all
  have "map_option ((@) ''pull/'') (re_match [(Digit, Many)] (drop (length ''pull/'') t2)) = Some m3"
    using m3 pre3 unfolding R3_def re_match_lit by (simp only: if_True)
  then obtain m4 where m4: "re_match [(Digit, Many)] (drop (length ''pull/'') t2) = Some m4"
    and m3': "m3 = ''pull/'' @ m4"
    by auto
  define t3 where "t3 = drop (length ''pull/'') t2"
  have t2: "t2 = ''pull/'' @ t3"
    using pre3 by (auto simp: t3_def prefix_def)
  from m4 have tw3: "takeWhile is_digit t3 \<noteq> []" and m4': "m4 = takeWhile is_digit t3"
    by (auto simp: re_match_many_last t3_def cd split: if_splits)
  define owner where "owner = takeWhile ns s1"
  define repo where "repo = takeWhile ns t1"
  define ds where "ds = takeWhile is_digit t3"
  define rest where "rest = dropWhile is_digit t3"
  have s1: "s1 = owner @ CHR ''/'' # t1"
    using takeWhile_dropWhile_id [of ns s1] by (simp add: owner_def dw1)
  have t1: "t1 = repo @ CHR ''/'' # t2"
    using takeWhile_dropWhile_id [of ns t1] by (simp add: repo_def dw2)
  have t3: "t3 = ds @ rest"
    by (simp add: ds_def rest_def)
  have 1: "s = ''https://github.com/'' @ owner @ ''/'' @ repo @ ''/pull/'' @ ds @ rest"
    by (simp add: s P_def s1 t1 t2 t3)
  have 2: "u = ''https://github.com/'' @ owner @ ''/'' @ repo @ ''/pull/'' @ ds"
    by (simp add: u m1' m2' m3' m4' owner_def repo_def ds_def P_def)
  have 3: "CHR ''/'' \<notin> set owner" "CHR ''/'' \<notin> set repo"
    using set_takeWhileD [of "CHR ''/''" ns] by (auto simp: owner_def repo_def ns_def)
  have 4: "list_all is_digit ds"
    using set_takeWhileD [of _ is_digit t3] by (auto simp: ds_def list_all_iff)
  have 5: "rest = [] \<or> \<not> is_digit (hd rest)"
    using hd_dropWhile [of is_digit t3] by (auto simp: rest_def)
  show ?thesis
    using 1 2 3 4 5 tw1 tw2 tw3 unfolding owner_def [symmetric] repo_def [symmetric] ds_def [symmetric]
    by blast
qed

lemma re_match_pr_url_complete:
  assumes "owner \<noteq> []" "CHR ''/'' \<notin> set owner" "repo \<noteq> []" "CHR ''/'' \<notin> set repo"
    and "ds \<noteq> []" "list_all is_digit ds"
  shows "re_match pr_url_regex
           (''https://github.com/'' @ owner @ ''/'' @ repo @ ''/pull/'' @ ds @ rest)
         = Some (''https://github.com/'' @ owner @ ''/'' @ repo @ ''/pull/''
                   @ takeWhile is_digit (ds @ rest))"
proof -
  define P where "P = ''https://github.com/''"
  define R3 where "R3 = lit ''pull/'' @ [(Digit, Many)]"
  define R2 where "R2 = (NotLit CHR ''/'', Many) # (Lit CHR ''/'', Once) # R3"
  define R1 where "R1 = (NotLit CHR ''/'', Many) # (Lit CHR ''/'', Once) # R2"
  define ns where "ns = cls_ok (NotLit CHR ''/'')"
  have ns: "\<not> cls_ok (NotLit CHR ''/'') CHR ''/''" by simp
  have cd: "cls_ok Digit = is_digit" by auto
  have re: "pr_url_regex = lit P @ R1"
    by (simp add: pr_url_regex_def P_def R1_def R2_def R3_def lit_def)
  have tw: "takeWhile ns (xs @ CHR ''/'' # ys) = xs" "dropWhile ns (xs @ CHR ''/'' # ys) = CHR ''/'' # ys"
    if "CHR ''/'' \<notin> set xs" for xs ys
    using that by (induction xs) (auto simp: ns_def)
  have dg: "takeWhile is_digit (ds @ rest) \<noteq> []"
    using assms(5,6) by (cases ds) auto
  have 3: "re_match R3 (''pull/'' @ ds @ rest) = Some (''pull/'' @ takeWhile is_digit (ds @ rest))"
    unfolding R3_def re_match_lit using dg by (simp add: re_match_many_last cd)
  have 2: "re_match R2 (repo @ CHR ''/'' # ''pull/'' @ ds @ rest)
             = Some (repo @ CHR ''/'' # ''pull/'' @ takeWhile is_digit (ds @ rest))"
    unfolding R2_def re_match_many_then_lit [OF ns] ns_def [symmetric]
    using assms(3,4) 3 by (simp add: tw)
  have 1: "re_match R1 (owner @ CHR ''/'' # repo @ CHR ''/'' # ''pull/'' @ ds @ rest)
             = Some (owner @ CHR ''/'' # repo @ CHR ''/'' # ''pull/'' @ takeWhile is_digit (ds @ rest))"
    unfolding R1_def re_match_many_then_lit [OF ns] ns_def [symmetric]
    using assms(1,2) 2 by (simp add: tw)
  have "re_match (lit P @ R1) (P @ owner @ CHR ''/'' # repo @ CHR ''/'' # ''pull/'' @ ds @ rest)
          = Some (P @ owner @ CHR ''/'' # repo @ CHR ''/'' # ''pull/'' @ takeWhile is_digit (ds @ rest))"
    unfolding re_match_lit using 1 by simp
  then show ?thesis
    by (simp add: re P_def)
qed

lemma re_search_Some:
  "re_search r s = Some u \<Longrightarrow>
   \<exists>pre t. s = pre @ t \<and> re_match r t = Some u
     \<and> (\<forall>pre' t'. s = pre' @ t' \<and> length pre' < length pre \<longrightarrow> re_match r t' = None)"
proof (induction s)
  case Nil
  then show ?case by simp
next
  case (Cons c cs)
  show ?case
  proof (cases "re_match r (c # cs)")
    case (Some m)
    with Cons.prems have "re_match r (c # cs) = Some u" by simp
    then have "c # cs = [] @ (c # cs) \<and> re_match r (c # cs) = Some u
      \<and> (\<forall>pre' t'. c # cs = pre' @ t' \<and> length pre' < length ([]::string) \<longrightarrow> re_match r t' = None)"
      by simp
    then show ?thesis by blast
  next
    case None
    with Cons.prems have "re_search r cs = Some u" by simp
    from Cons.IH [OF this] obtain pre t where pt: "cs = pre @ t" "re_match r t = Some u"
      and least: "\<forall>pre' t'. cs = pre' @ t' \<and> length pre' < length pre \<longrightarrow> re_match r t' = None"
      by blast
    have "\<forall>pre' t'. c # cs = pre' @ t' \<and> length pre' < length (c # pre) \<longrightarrow> re_match r t' = None"
    proof (intro allI impI)
      fix pre' t' assume a: "c # cs = pre' @ t' \<and> length pre' < length (c # pre)"
      show "re_match r t' = None"
      proof (cases pre')
        case Nil
        with a None show ?thesis by simp
      next
        case (Cons d pre'')
        with a have "cs = pre'' @ t'" "length pre'' < length pre" by auto
        with least show ?thesis by blast
      qed
    qed
    moreover have "c # cs = (c # pre) @ t" using pt by simp
    ultimately show ?thesis using pt(2) by blast
  qed
qed

lemma re_search_complete:
  "re_match r t \<noteq> None \<Longrightarrow> re_search r (pre @ t) \<noteq> None"
proof (induction pre)
  case Nil
  then show ?case by (cases t) auto
next
  case (Cons c pre)
  then show ?case by (cases "re_match r (c # pre @ t)") auto
qed

lemma is_pr_url_match: "is_pr_url u \<Longrightarrow> re_match pr_url_regex (u @ post) \<noteq> None"
proof -
  assume "is_pr_url u"
  then obtain owner repo ds where
    u: "u = ''https://github.com/'' @ owner @ ''/'' @ repo @ ''/pull/'' @ ds"
    and c: "owner \<noteq> []" "CHR ''/'' \<notin> set owner" "repo \<noteq> []" "CHR ''/'' \<notin> set repo"
      "ds \<noteq> []" "list_all is_digit ds"
    unfolding is_pr_url_def by blast
  show ?thesis
    using re_match_pr_url_complete [OF c, of post] by (simp add: u)
qed

lemma match_is_pr_url:
  assumes "re_match pr_url_regex t = Some u"
  shows "is_pr_url u \<and> (\<exists>post. t = u @ post \<and> (post = [] \<or> \<not> is_digit (hd post)))"
proof -
  from re_match_pr_url_sound [OF assms] obtain owner repo ds rest where
    t: "t = ''https://github.com/'' @ owner @ ''/'' @ repo @ ''/pull/'' @ ds @ rest"
    and u: "u = ''https://github.com/'' @ owner @ ''/'' @ repo @ ''/pull/'' @ ds"
    and c: "owner \<noteq> []" "CHR ''/'' \<notin> set owner" "repo \<noteq> []" "CHR ''/'' \<notin> set repo"
      "ds \<noteq> []" "list_all is_digit ds"
    and r: "rest = [] \<or> \<not> is_digit (hd rest)"
    by blast
  have "is_pr_url u"
    unfolding is_pr_url_def using u c by blast
  moreover have "t = u @ rest"
    by (simp add: t u)
  ultimately show ?thesis using r by blast
qed

lemma is_pr_url_github: "is_pr_url u \<Longrightarrow> sublist ''https://github.com'' u"
proof -
  assume "is_pr_url u"
  then obtain x where "u = ''https://github.com'' @ x"
    unfolding is_pr_url_def by auto
  then have "prefix ''https://github.com'' u"
    by (simp only: prefixI)
  then show ?thesis by (rule prefix_imp_sublist)
qed

lemma has_pr_url_iff:
  "(\<exists>u. sublist u l \<and> is_pr_url u) \<longleftrightarrow> re_search pr_url_regex l \<noteq> None"
proof
  assume "\<exists>u. sublist u l \<and> is_pr_url u"
  then obtain u pre post where "l = pre @ u @ post" "is_pr_url u"
    by (auto simp: sublist_def)
  then show "re_search pr_url_regex l \<noteq> None"
    using re_search_complete [of pr_url_regex "u @ post" pre] is_pr_url_match [of u post] by simp
next
  assume "re_search pr_url_regex l \<noteq> None"
  then obtain u where "re_search pr_url_regex l = Some u" by auto
  from re_search_Some [OF this] obtain pre t where "l = pre @ t" "re_match pr_url_regex t = Some u"
    by blast
  with match_is_pr_url [of t u] obtain post where "l = pre @ u @ post" "is_pr_url u"
    by auto
  then show "\<exists>u. sublist u l \<and> is_pr_url u"
    by (auto simp: sublist_def)
qed

lemma has_pr_url_github:
  assumes "re_search pr_url_regex l \<noteq> None"
  shows "str_in ''https://github.com'' l"
proof -
  from assms obtain u where "sublist u l" "is_pr_url u"
    using has_pr_url_iff [of l] by blast
  then have "sublist ''https://github.com'' l"
    using is_pr_url_github [of u] sublist_order.order_trans by blast
  then show ?thesis by (simp only: str_in_sublist)
qed

lemma extract_pr_url_Cons:
  "extract_pr_url_from_logs (x # logs) =
     (if pr_line x then re_search pr_url_regex x else extract_pr_url_from_logs logs)"
proof (cases "re_search pr_url_regex x")
  case None
  then have "\<not> pr_line x"
    by (simp add: pr_line_def has_pr_url_iff)
  with None show ?thesis by simp
next
  case (Some u)
  then have "str_in ''https://github.com'' x"
    using has_pr_url_github [of x] by simp
  with Some show ?thesis
    by (simp add: pr_line_def has_pr_url_iff str_in_sublist)
qed

lemma extract_pr_url_skip:
  "\<forall>x\<in>set before. \<not> pr_line x \<Longrightarrow>
   extract_pr_url_from_logs (before @ rest) = extract_pr_url_from_logs rest"
  by (induction before) (simp_all only: extract_pr_url_Cons append_Cons append_Nil list.set, simp_all)

lemma extract_pr_url_none:
  "\<forall>x\<in>set logs. \<not> pr_line x \<Longrightarrow> extract_pr_url_from_logs logs = None"
  using extract_pr_url_skip [of logs "[]"] by simp

lemma re_search_leftmost_longest:
  assumes "pr_line l"
  shows "\<exists>pre u post. l = pre @ u @ post \<and> is_pr_url u
           \<and> re_search pr_url_regex l = Some u
           \<and> (post = [] \<or> \<not> is_digit (hd post))
           \<and> (\<forall>pre' u' post'. l = pre' @ u' @ post' \<and> is_pr_url u' \<longrightarrow> length pre \<le> length pre')"
proof -
  from assms obtain u where s: "re_search pr_url_regex l = Some u"
    using has_pr_url_iff [of l] by (auto simp: pr_line_def)
  from re_search_Some [OF s] obtain pre t where l: "l = pre @ t"
    and m: "re_match pr_url_regex t = Some u"
    and least: "\<forall>pre' t'. l = pre' @ t' \<and> length pre' < length pre \<longrightarrow> re_match pr_url_regex t' = None"
    by blast
  from match_is_pr_url [OF m] obtain post where u: "is_pr_url u" and t: "t = u @ post"
    and p: "post = [] \<or> \<not> is_digit (hd post)"
    by blast
  have "length pre \<le> length pre'" if "l = pre' @ u' @ post' \<and> is_pr_url u'" for pre' u' post'
  proof (rule ccontr)
    assume "\<not> length pre \<le> length pre'"
    then have "length pre' < length pre" by simp
    with that have "re_match pr_url_regex (u' @ post') = None"
      using least [rule_format, of pre' "u' @ post'"] by simp
    with that is_pr_url_match [of u' post'] show False by simp
  qed
  with l t u s p show ?thesis by blast
qed

text \<open>
  Claim C3. Take the first line of the logs that contains ``pull request'' in any letter
  case and has a substring of the form \<open>https://github.com/<owner>/<repo>/pull/<digits>\<close>.
  \<open>extract_pr_url_from_logs\<close> returns a substring of that line of that form, not the
  line: the leftmost one, with all the digits that follow. When no line of the logs
  qualifies, it returns \<open>None\<close>.
\<close>

theorem extract_pr_url_first_line:
  "(\<forall>before l after.
      logs = before @ l # after \<and> (\<forall>x\<in>set before. \<not> pr_line x) \<and> pr_line l \<longrightarrow>
      (\<exists>pre u post.
         l = pre @ u @ post \<and> is_pr_url u
         \<and> extract_pr_url_from_logs logs = Some u
         \<and> (post = [] \<or> \<not> is_digit (hd post))
         \<and> (\<forall>pre' u' post'. l = pre' @ u' @ post' \<and> is_pr_url u' \<longrightarrow> length pre \<le> length pre')))
   \<and> ((\<forall>x\<in>set logs. \<not> pr_line x) \<longrightarrow> extract_pr_url_from_logs logs = None)"
proof (intro conjI allI impI)
  fix before l after
  assume a: "logs = before @ l # after \<and> (\<forall>x\<in>set before. \<not> pr_line x) \<and> pr_line l"
  then have "extract_pr_url_from_logs logs = re_search pr_url_regex l"
    using extract_pr_url_skip [of before "l # after"]
    by (simp add: extract_pr_url_Cons del: extract_pr_url_from_logs.simps)
  with re_search_leftmost_longest [of l] a
  show "\<exists>pre u post.
         l = pre @ u @ post \<and> is_pr_url u
         \<and> extract_pr_url_from_logs logs = Some u
         \<and> (post = [] \<or> \<not> is_digit (hd post))
         \<and> (\<forall>pre' u' post'. l = pre' @ u' @ post' \<and> is_pr_url u' \<longrightarrow> length pre \<le> length pre')"
    by simp
next
  assume "\<forall>x\<in>set logs. \<not> pr_line x"
  then show "extract_pr_url_from_logs logs = None"
    by (rule extract_pr_url_none)
qed

lemma pr_line_code:
  "pr_line l \<longleftrightarrow> str_in ''pull request'' (lower l) \<and> re_search pr_url_regex l \<noteq> None"
  by (simp add: pr_line_def has_pr_url_iff str_in_sublist)

theorem extract_pr_url_first_line_witness:
  "(\<exists>pre u post.
      ''Opened Pull Request https://github.com/acme/api/pull/12 ok'' = pre @ u @ post
      \<and> is_pr_url u
      \<and> extract_pr_url_from_logs
           [''start'', ''Opened Pull Request https://github.com/acme/api/pull/12 ok''] = Some u)
   \<and> extract_pr_url_from_logs
        [''pull request soon'', ''https://github.com/acme/api/pull/12''] = None"
proof -
  have 1: "\<forall>x\<in>set [''start'']. \<not> pr_line x"
    by (simp only: pr_line_code) code_simp
  have 2: "pr_line ''Opened Pull Request https://github.com/acme/api/pull/12 ok''"
    by (simp only: pr_line_code) code_simp
  have 3: "\<forall>x\<in>set [''pull request soon'', ''https://github.com/acme/api/pull/12'']. \<not> pr_line x"
    by (simp only: pr_line_code) code_simp
  have 4: "[''start'', ''Opened Pull Request https://github.com/acme/api/pull/12 ok'']
             = [''start''] @ ''Opened Pull Request https://github.com/acme/api/pull/12 ok'' # []"
    by simp
  from extract_pr_url_first_line
         [of "[''start'', ''Opened Pull Request https://github.com/acme/api/pull/12 ok'']"]
       1 2 4
  have "\<exists>pre u post.
      ''Opened Pull Request https://github.com/acme/api/pull/12 ok'' = pre @ u @ post
      \<and> is_pr_url u
      \<and> extract_pr_url_from_logs
           [''start'', ''Opened Pull Request https://github.com/acme/api/pull/12 ok''] = Some u"
    by blast
  moreover from extract_pr_url_first_line
         [of "[''pull request soon'', ''https://github.com/acme/api/pull/12'']"] 3
  have "extract_pr_url_from_logs
        [''pull request soon'', ''https://github.com/acme/api/pull/12''] = None"
    by blast
  ultimately show ?thesis by blast
qed

section \<open>Properties of the agent client\<close>

lemma lower_get: "lower ''get'' = ''get''"
  by code_simp

lemma get_agent_run_reply:
  "get_agent_run c net aid =
     response_json
       (net ''get'' (base_url c @ ''/organizations/'' @ org_id c @ ''/agent/run/'' @ aid) [] [])"
  by (simp add: get_agent_run_def make_request_def lower_get Let_def)

text \<open>
  Claim C7, as amended. When the status request gets a response that is not an HTTP error
  and whose body is JSON, with a status that is none of pending, running, completed and
  failed (or with no status), \<open>get_agent_run\<close> does not raise: it returns the body as
  it is, the status string unchanged. The monitor does not treat such a status as
  terminal: the pass through the loop body sleeps, counts the attempt and continues.
\<close>

theorem get_agent_run_unknown_status:
  assumes "run_net w (attempt s) ''get''
             (base_url c @ ''/organizations/'' @ org_id c @ ''/agent/run/'' @ aid) [] []
           = Reply code (Some body)"
    and "\<not> (400 \<le> code \<and> code < 600)"
    and "body ''status'' \<notin> {Some ''pending'', Some ''running'', Some ''completed'', Some ''failed''}"
  shows "get_agent_run c (run_net w (attempt s)) aid = Inr body
       \<and> monitor_body w c aid pid rid s =
           (Continue, s\<lparr>sleeps := sleeps s @ [10], attempt := attempt s + 1\<rparr>)"
proof -
  have g: "get_agent_run c (run_net w (attempt s)) aid = Inr body"
    using assms(1,2) by (simp add: get_agent_run_reply response_json_def)
  have "body ''status'' \<noteq> Some ''completed''" "body ''status'' \<noteq> Some ''failed''"
    using assms(3) by auto
  then have "monitor_body w c aid pid rid s =
           (Continue, s\<lparr>sleeps := sleeps s @ [10], attempt := attempt s + 1\<rparr>)"
    by (simp add: monitor_body_def g)
  with g show ?thesis by simp
qed

theorem get_agent_run_unknown_status_witness:
  "get_agent_run ex_client (run_net (ex_world (\<lambda>k. Some ''queued'') []) 0) ''run1''
     = Inr [''status'' \<mapsto> ''queued'']
   \<and> monitor_body (ex_world (\<lambda>k. Some ''queued'') []) ex_client ''run1'' ''p1'' ''r1'' ex_state
     = (Continue, ex_state\<lparr>sleeps := [10], attempt := 1\<rparr>)"
proof -
  have a: "attempt ex_state = 0" "sleeps ex_state = []"
    by (simp_all add: ex_state_def)
  have 1: "run_net (ex_world (\<lambda>k. Some ''queued'') []) (attempt ex_state) ''get''
             (base_url ex_client @ ''/organizations/'' @ org_id ex_client @ ''/agent/run/'' @ ''run1'') [] []
           = Reply 200 (Some [''status'' \<mapsto> ''queued''])"
    by (simp add: ex_world_def)
  have 2: "\<not> (400 \<le> (200::nat) \<and> (200::nat) < 600)"
    by simp
  have 3: "[''status'' \<mapsto> ''queued''] ''status''
             \<notin> {Some ''pending'', Some ''running'', Some ''completed'', Some ''failed''}"
    by simp
  show ?thesis
    using get_agent_run_unknown_status [OF 1 2 3, of "''p1''" "''r1''"]
    by (simp add: a fun_upd_def)
qed

text \<open>
  The claim as stated, that the unrecognized status is mapped to unknown, fails: the
  status \<open>queued\<close> comes back as \<open>queued\<close>.
\<close>

theorem get_agent_run_unknown_status_counterexample:
  "get_agent_run ex_client (run_net (ex_world (\<lambda>k. Some ''queued'') []) 0) ''run1''
     = Inr [''status'' \<mapsto> ''queued'']
   \<and> [''status'' \<mapsto> ''queued''] ''status'' = Some ''queued''
   \<and> ''queued'' \<noteq> ''unknown''"
  by (simp add: get_agent_run_reply response_json_def ex_world_def)

section \<open>Properties of the broadcast\<close>





lemma find_map_same:
  assumes "\<forall>c. ws_id (f c) = ws_id c"
  shows "find (\<lambda>conn. ws_id conn = cid) (map f conns)
         = map_option f (find (\<lambda>conn. ws_id conn = cid) conns)"
  using assms by (induction conns) auto

lemma send_fails_receive:
  "send_fails (map (receive subs pid rid message) conns) cid = send_fails conns cid"
proof -
  have "\<forall>c. ws_id (receive subs pid rid message c) = ws_id c"
    by (simp add: receive_def)
  then have "find (\<lambda>conn. ws_id conn = cid) (map (receive subs pid rid message) conns)
         = map_option (receive subs pid rid message) (find (\<lambda>conn. ws_id conn = cid) conns)"
    by (rule find_map_same)
  then show ?thesis
    by (cases "find (\<lambda>conn. ws_id conn = cid) conns") (simp_all add: send_fails_def receive_def)
qed




section \<open>Properties of the run monitor\<close>

declare monitor_loop.simps [simp del]

lemma emit_fields:
  "emitted (emit pid rid ev s) = emitted s @ [ev]"
  "attempt (emit pid rid ev s) = attempt s"
  "sleeps (emit pid rid ev s) = sleeps s"
  by (simp_all add: emit_def Let_def split: prod.splits)

lemma monitor_body_continue:
  assumes "classify w c aid (attempt s) = None"
  shows "\<exists>s'. monitor_body w c aid pid rid s = (Continue, s') \<and> emitted s' = emitted s
           \<and> attempt s' = Suc (attempt s) \<and> sleeps s' = sleeps s @ [10]"
  using assms
  by (auto simp: monitor_body_def classify_def on_exception_def
           split: sum.splits option.splits if_splits)

lemma monitor_body_break:
  assumes "classify w c aid (attempt s) = Some ev"
  shows "\<exists>s'. monitor_body w c aid pid rid s = (Break, s') \<and> emitted s' = emitted s @ [ev]
           \<and> attempt s' = attempt s \<and> sleeps s' = sleeps s"
  using assms
  by (auto simp: monitor_body_def classify_def emit_fields Let_def
           split: sum.splits option.splits if_splits)

lemma monitor_body_error:
  assumes "poll_error w c aid (attempt s) = Some e"
  shows "monitor_body w c aid pid rid s = (Continue, on_exception aid e s)"
  using assms
  by (auto simp: monitor_body_def poll_error_def split: sum.splits if_splits)

lemma classify_not_timeout:
  "classify w c aid k = Some ev \<Longrightarrow> error ev \<noteq> Some ''Monitoring timeout - PR status unknown''"
  by (auto simp: classify_def split: sum.splits option.splits if_splits)

lemma monitor_loop_char:
  "attempt s \<le> max_attempts \<Longrightarrow>
   (case find (\<lambda>k. classify w c aid k \<noteq> None) [attempt s..<max_attempts] of
      None \<Rightarrow>
        attempt (monitor_loop w c aid pid rid s) = max_attempts
        \<and> emitted (monitor_loop w c aid pid rid s) = emitted s
        \<and> sleeps (monitor_loop w c aid pid rid s)
            = sleeps s @ replicate (max_attempts - attempt s) 10
    | Some k \<Rightarrow>
        attempt (monitor_loop w c aid pid rid s) = k
        \<and> emitted (monitor_loop w c aid pid rid s) = emitted s @ [the (classify w c aid k)]
        \<and> sleeps (monitor_loop w c aid pid rid s) = sleeps s @ replicate (k - attempt s) 10)"
proof (induction w c aid pid rid s rule: monitor_loop.induct)
  case (1 w c aid pid rid s)
  show ?case
  proof (cases "attempt s < max_attempts")
    case False
    with "1.prems" have "attempt s = max_attempts" by simp
    then show ?thesis
      by (subst (1 2 3) monitor_loop.simps) simp
  next
    case lt: True
    then have upt: "[attempt s..<max_attempts] = attempt s # [Suc (attempt s)..<max_attempts]"
      by (simp add: upt_conv_Cons)
    show ?thesis
    proof (cases "classify w c aid (attempt s)")
      case (Some ev)
      from monitor_body_break [OF Some, of pid rid] obtain s' where
        b: "monitor_body w c aid pid rid s = (Break, s')" "emitted s' = emitted s @ [ev]"
           "attempt s' = attempt s" "sleeps s' = sleeps s"
        by blast
      have "monitor_loop w c aid pid rid s = s'"
        using lt b(1) by (subst monitor_loop.simps) simp
      then show ?thesis
        using Some b by (simp add: upt)
    next
      case None
      from monitor_body_continue [OF None, of pid rid] obtain s' where
        b: "monitor_body w c aid pid rid s = (Continue, s')" "emitted s' = emitted s"
           "attempt s' = Suc (attempt s)" "sleeps s' = sleeps s @ [10]"
        by blast
      have loop: "monitor_loop w c aid pid rid s = monitor_loop w c aid pid rid s'"
        using lt b(1) by (subst monitor_loop.simps) simp
      have le: "attempt s' \<le> max_attempts"
        using lt b(3) by simp
      note IH = "1.IH" [OF lt b(1) [symmetric] refl le]
      have rep: "sleeps s @ 10 # replicate (n - Suc (attempt s)) 10
                 = sleeps s @ replicate (n - attempt s) 10" if "attempt s < n" for n
        using that by (cases "n - attempt s") (simp_all add: Suc_diff_Suc)
      show ?thesis
      proof (cases "find (\<lambda>k. classify w c aid k \<noteq> None) [Suc (attempt s)..<max_attempts]")
        case N: None
        with IH show ?thesis
          using None lt by (simp add: upt loop b rep)
      next
        case S: (Some k)
        then have "Suc (attempt s) \<le> k"
          by (auto simp: find_Some_iff)
        with IH S show ?thesis
          using None by (simp add: upt loop b rep)
      qed
    qed
  qed
qed

lemma monitor_loop_errors:
  "attempt s \<le> max_attempts \<Longrightarrow>
   \<forall>k. attempt s \<le> k \<and> k < max_attempts \<longrightarrow> poll_error w c aid k \<noteq> None \<Longrightarrow>
   monitor_loop w c aid pid rid s =
     s\<lparr>log := log s @ map (\<lambda>k. MonitorError aid (the (poll_error w c aid k)))
                         [attempt s..<max_attempts],
       sleeps := sleeps s @ replicate (max_attempts - attempt s) 10,
       attempt := max_attempts\<rparr>"
proof (induction w c aid pid rid s rule: monitor_loop.induct)
  case (1 w c aid pid rid s)
  show ?case
  proof (cases "attempt s < max_attempts")
    case False
    with "1.prems" have "attempt s = max_attempts" by simp
    then show ?thesis
      by (subst monitor_loop.simps) simp
  next
    case lt: True
    then have upt: "[attempt s..<max_attempts] = attempt s # [Suc (attempt s)..<max_attempts]"
      by (simp add: upt_conv_Cons)
    from "1.prems"(2) lt obtain e where e: "poll_error w c aid (attempt s) = Some e"
      by auto
    have b: "monitor_body w c aid pid rid s = (Continue, on_exception aid e s)"
      using e by (rule monitor_body_error)
    have loop: "monitor_loop w c aid pid rid s = monitor_loop w c aid pid rid (on_exception aid e s)"
      using lt b by (subst monitor_loop.simps) simp
    have a: "attempt (on_exception aid e s) = Suc (attempt s)"
      by (simp add: on_exception_def)
    have le: "attempt (on_exception aid e s) \<le> max_attempts"
      using lt a by simp
    have all: "\<forall>k. attempt (on_exception aid e s) \<le> k \<and> k < max_attempts
                 \<longrightarrow> poll_error w c aid k \<noteq> None"
      using "1.prems"(2) a by simp
    have rep: "10 # replicate (max_attempts - Suc (attempt s)) (10::nat)
                 = replicate (max_attempts - attempt s) 10"
      using lt by (cases "max_attempts - attempt s") (simp_all add: Suc_diff_Suc)
    show ?thesis
      unfolding loop "1.IH" [OF lt b [symmetric] refl le all]
      using rep by (simp add: on_exception_def upt e)
  qed
qed

lemma broadcast_loop_log:
  "prefix log0 (snd (broadcast_loop subs pid rid message (conns, log0)))"
proof (induction subs arbitrary: conns log0)
  case Nil
  then show ?case by simp
next
  case (Cons a subs)
  obtain cid sub where a: "a = (cid, sub)" by (cases a)
  have app: "prefix log0 (snd (broadcast_loop subs pid rid message (conns', log0 @ l)))"
    for conns' l
    using Cons [of "log0 @ l" conns'] by (meson append_prefixD)
  show ?case
    using app [of _ "[]"] app [of _ "[SendFailed SendError]"]
    by (auto simp: a send_text_def split: option.splits)
qed

lemma emit_log: "prefix (log s) (log (emit pid rid ev s))"
  using broadcast_loop_log [of "log s" "pr_subscriptions (manager s)" pid rid _ "active_connections (manager s)"]
  by (simp add: emit_def broadcast_pr_event_def Let_def split: prod.splits) (metis snd_conv)

lemma get_agent_run_logs_reply:
  "get_agent_run_logs c net aid page size_arg =
     response_json
       (net ''get'' (base_url c @ ''/organizations/'' @ org_id c @ ''/agent/run/'' @ aid @ ''/logs'')
          [] [(''page'', page), (''size'', size_arg)])"
  by (simp add: get_agent_run_logs_def make_request_def lower_get Let_def)

text \<open>
  When the monitor runs alone and the client can be constructed, it returns having
  emitted exactly one event: the one of the first attempt below the ceiling whose poll
  has a terminal classification, or the timeout event when there is none.
\<close>

lemma monitor_alone_emits_once:
  "case get_codegen_client (environ w) cached of
     Inl e \<Rightarrow> monitor_agent_run_for_pr w cached mgr aid pid rid = Inl e
   | Inr c \<Rightarrow>
       \<exists>s. monitor_agent_run_for_pr w cached mgr aid pid rid = Inr s
          \<and> length (emitted s) = 1
          \<and> (case find (\<lambda>k. classify w c aid k \<noteq> None) [0..<max_attempts] of
                None \<Rightarrow>
                  attempt s = max_attempts
                  \<and> emitted s = [timeout_event (now w max_attempts)]
              | Some k \<Rightarrow>
                  attempt s = k
                  \<and> emitted s = [the (classify w c aid k)]
                  \<and> error (the (classify w c aid k))
                      \<noteq> Some ''Monitoring timeout - PR status unknown'')"
proof (cases "get_codegen_client (environ w) cached")
  case (Inl e)
  then show ?thesis by (simp add: monitor_agent_run_for_pr_def)
next
  case (Inr c)
  define s0 where "s0 = \<lparr>attempt = 0, manager = mgr, log = [], sleeps = [], emitted = []\<rparr>"
  define s1 where "s1 = monitor_loop w c aid pid rid s0"
  have s0: "attempt s0 = 0" "emitted s0 = []" "attempt s0 \<le> max_attempts"
    by (simp_all add: s0_def)
  note char = monitor_loop_char [OF s0(3), of w c aid pid rid, folded s1_def, unfolded s0(1,2)]
  have run: "monitor_agent_run_for_pr w cached mgr aid pid rid =
             (if attempt s1 \<ge> max_attempts
              then Inr (emit pid rid (timeout_event (now w (attempt s1))) s1) else Inr s1)"
    by (simp add: monitor_agent_run_for_pr_def Inr s1_def s0_def Let_def)
  show ?thesis
  proof (cases "find (\<lambda>k. classify w c aid k \<noteq> None) [0..<max_attempts]")
    case None
    with char have "attempt s1 = max_attempts" "emitted s1 = []"
      by simp_all
    then show ?thesis
      using None by (simp add: Inr run emit_fields)
  next
    case (Some k)
    then have k: "k < max_attempts" "classify w c aid k \<noteq> None"
      by (auto simp: find_Some_iff)
    from char Some have "attempt s1 = k" "emitted s1 = [the (classify w c aid k)]"
      by simp_all
    moreover have "error (the (classify w c aid k)) \<noteq> Some ''Monitoring timeout - PR status unknown''"
      using k(2) classify_not_timeout [of w c aid k] by auto
    ultimately show ?thesis
      using Some k(1) by (simp add: Inr run)
  qed
qed

text \<open>
  Claim C2. When each of the 60 polls returns a status that is neither completed nor
  failed, the monitor returns having emitted exactly one event, the failed event with
  the error ``Monitoring timeout - PR status unknown'', after 60 attempts, each
  followed by a sleep of 10 seconds.
\<close>

theorem monitor_timeout_after_60:
  assumes "get_codegen_client (environ w) cached = Inr c"
    and "\<forall>k<60. non_terminal_status w c aid k"
  shows "\<exists>s. monitor_agent_run_for_pr w cached mgr aid pid rid = Inr s
           \<and> emitted s = [\<lparr>status = ''failed'', prUrl = None,
                            error = Some ''Monitoring timeout - PR status unknown'',
                            createdAt = now w 60\<rparr>]
           \<and> attempt s = 60
           \<and> sleeps s = replicate 60 10"
proof -
  define s0 where "s0 = \<lparr>attempt = 0, manager = mgr, log = [], sleeps = [], emitted = []\<rparr>"
  define s1 where "s1 = monitor_loop w c aid pid rid s0"
  have s0: "attempt s0 = 0" "emitted s0 = []" "attempt s0 \<le> max_attempts" "sleeps s0 = []"
    by (simp_all add: s0_def)
  have "classify w c aid k = None" if "k < 60" for k
    using assms(2) that
    by (auto simp: classify_def non_terminal_status_def split: sum.splits)
  then have "find (\<lambda>k. classify w c aid k \<noteq> None) [0..<max_attempts] = None"
    by (simp add: find_None_iff max_attempts_def)
  with monitor_loop_char [OF s0(3), of w c aid pid rid, folded s1_def, unfolded s0(1,2,4)]
  have s1: "attempt s1 = max_attempts" "emitted s1 = []" "sleeps s1 = replicate max_attempts 10"
    by simp_all
  have "monitor_agent_run_for_pr w cached mgr aid pid rid
          = Inr (emit pid rid (timeout_event (now w max_attempts)) s1)"
    using s1(1) by (simp add: monitor_agent_run_for_pr_def assms(1) s1_def s0_def Let_def)
  then show ?thesis
    using s1 by (simp add: emit_fields timeout_event_def max_attempts_def)
qed

theorem monitor_timeout_after_60_witness:
  "\<exists>s. monitor_agent_run_for_pr (ex_world (\<lambda>k. Some ''running'') [])
          (Some ex_client) ex_manager ''run1'' ''p1'' ''r1'' = Inr s
      \<and> emitted s = [\<lparr>status = ''failed'', prUrl = None,
                       error = Some ''Monitoring timeout - PR status unknown'',
                       createdAt = ''2025-01-01T00:00:00''\<rparr>]
      \<and> attempt s = 60
      \<and> sleeps s = replicate 60 10"
proof -
  have 1: "get_codegen_client (environ (ex_world (\<lambda>k. Some ''running'') [])) (Some ex_client)
             = Inr ex_client"
    by (simp add: get_codegen_client_def)
  have 2: "\<forall>k<60. non_terminal_status (ex_world (\<lambda>k. Some ''running'') []) ex_client ''run1'' k"
    by (simp add: non_terminal_status_def get_agent_run_reply response_json_def ex_world_def)
  have 3: "now (ex_world (\<lambda>k. Some ''running'') []) 60 = ''2025-01-01T00:00:00''"
    by (simp add: ex_world_def)
  show ?thesis
    using monitor_timeout_after_60 [OF 1 2, of ex_manager "''p1''" "''r1''"]
    unfolding 3 by simp
qed

text \<open>
  Claim C6. A pass through the loop body whose status request raises, or whose logs
  request raises after a completed status, does not end the loop: the exception is
  logged, the monitor sleeps the same 10 seconds and the attempt is counted. When every
  one of the 60 polls raises, the monitor returns having logged the 60 exceptions and
  emitted exactly the timeout event, with the error
  ``Monitoring timeout - PR status unknown''.
\<close>

theorem monitor_absorbs_errors:
  "(poll_error w c aid (attempt s) = Some e \<longrightarrow>
      monitor_body w c aid pid rid s =
        (Continue, s\<lparr>log := log s @ [MonitorError aid e],
                     sleeps := sleeps s @ [10],
                     attempt := attempt s + 1\<rparr>))
   \<and> (get_codegen_client (environ w) cached = Inr c
        \<and> (\<forall>k<60. poll_error w c aid k \<noteq> None) \<longrightarrow>
      (\<exists>s'. monitor_agent_run_for_pr w cached mgr aid pid rid = Inr s'
          \<and> emitted s' = [\<lparr>status = ''failed'', prUrl = None,
                            error = Some ''Monitoring timeout - PR status unknown'',
                            createdAt = now w 60\<rparr>]
          \<and> attempt s' = 60
          \<and> sleeps s' = replicate 60 10
          \<and> prefix (map (\<lambda>k. MonitorError aid (the (poll_error w c aid k))) [0..<60]) (log s')))"
proof (intro conjI impI)
  assume "poll_error w c aid (attempt s) = Some e"
  then show "monitor_body w c aid pid rid s =
        (Continue, s\<lparr>log := log s @ [MonitorError aid e],
                     sleeps := sleeps s @ [10],
                     attempt := attempt s + 1\<rparr>)"
    by (simp add: monitor_body_error on_exception_def)
next
  assume a: "get_codegen_client (environ w) cached = Inr c
        \<and> (\<forall>k<60. poll_error w c aid k \<noteq> None)"
  define s0 where "s0 = \<lparr>attempt = 0, manager = mgr, log = [], sleeps = [], emitted = []\<rparr>"
  define s1 where "s1 = monitor_loop w c aid pid rid s0"
  have s0: "attempt s0 \<le> max_attempts"
    by (simp add: s0_def)
  have all: "\<forall>k. attempt s0 \<le> k \<and> k < max_attempts \<longrightarrow> poll_error w c aid k \<noteq> None"
    using a by (simp add: max_attempts_def)
  have s1: "s1 = s0\<lparr>log := log s0 @ map (\<lambda>k. MonitorError aid (the (poll_error w c aid k)))
                         [attempt s0..<max_attempts],
       sleeps := sleeps s0 @ replicate (max_attempts - attempt s0) 10,
       attempt := max_attempts\<rparr>"
    unfolding s1_def by (rule monitor_loop_errors [OF s0 all])
  have f: "attempt s1 = 60" "emitted s1 = []" "sleeps s1 = replicate 60 10"
    "log s1 = map (\<lambda>k. MonitorError aid (the (poll_error w c aid k))) [0..<60]"
    by (simp_all add: s1 s0_def max_attempts_def)
  have run: "monitor_agent_run_for_pr w cached mgr aid pid rid
          = Inr (emit pid rid (timeout_event (now w 60)) s1)"
    using f(1) a by (simp add: monitor_agent_run_for_pr_def s1_def s0_def Let_def max_attempts_def)
  have "prefix (map (\<lambda>k. MonitorError aid (the (poll_error w c aid k))) [0..<60])
          (log (emit pid rid (timeout_event (now w 60)) s1))"
    using emit_log [of s1 pid rid "timeout_event (now w 60)"] by (simp only: f(4))
  then show "\<exists>s'. monitor_agent_run_for_pr w cached mgr aid pid rid = Inr s'
          \<and> emitted s' = [\<lparr>status = ''failed'', prUrl = None,
                            error = Some ''Monitoring timeout - PR status unknown'',
                            createdAt = now w 60\<rparr>]
          \<and> attempt s' = 60
          \<and> sleeps s' = replicate 60 10
          \<and> prefix (map (\<lambda>k. MonitorError aid (the (poll_error w c aid k))) [0..<60]) (log s')"
    using f by (simp add: run emit_fields timeout_event_def)
qed

theorem monitor_absorbs_errors_witness:
  "monitor_body (ex_world (\<lambda>k. None) []) ex_client ''run1'' ''p1'' ''r1'' ex_state
     = (Continue, ex_state\<lparr>log := [MonitorError ''run1'' ConnectionError],
                            sleeps := [10], attempt := 1\<rparr>)
   \<and> (\<exists>s'. monitor_agent_run_for_pr (ex_world (\<lambda>k. None) [])
               (Some ex_client) ex_manager ''run1'' ''p1'' ''r1'' = Inr s'
          \<and> emitted s' = [\<lparr>status = ''failed'', prUrl = None,
                            error = Some ''Monitoring timeout - PR status unknown'',
                            createdAt = ''2025-01-01T00:00:00''\<rparr>]
          \<and> attempt s' = 60
          \<and> sleeps s' = replicate 60 10
          \<and> prefix (replicate 60 (MonitorError ''run1'' ConnectionError)) (log s'))"
proof -
  define w where "w = ex_world (\<lambda>k. None) []"
  have pe: "poll_error w ex_client ''run1'' k = Some ConnectionError" for k
    by (simp add: poll_error_def get_agent_run_reply response_json_def w_def ex_world_def)
  have 1: "get_codegen_client (environ w) (Some ex_client) = Inr ex_client
           \<and> (\<forall>k<60. poll_error w ex_client ''run1'' k \<noteq> None)"
    by (simp add: get_codegen_client_def pe)
  have 3: "now w 60 = ''2025-01-01T00:00:00''"
    by (simp add: w_def ex_world_def)
  have 4: "attempt ex_state = 0" "log ex_state = []" "sleeps ex_state = []"
    by (simp_all add: ex_state_def)
  have 5: "map (\<lambda>k. MonitorError ''run1'' (the (poll_error w ex_client ''run1'' k))) [0..<60]
           = replicate 60 (MonitorError ''run1'' ConnectionError)"
    by (simp add: pe map_replicate_const)
  show ?thesis
    using monitor_absorbs_errors
            [of w ex_client "''run1''" ex_state ConnectionError "''p1''" "''r1''"
                "Some ex_client" ex_manager]
          1
    unfolding w_def [symmetric] 3 5
    by (simp add: pe 4)
qed

section \<open>Properties of the run monitor among other tasks\<close>

declare broadcast_iter.simps [simp del]
declare monitor_loop_conc.simps [simp del]

lemma broadcast_iter_alone:
  "used = length (pr_subscriptions self) \<Longrightarrow> i \<le> used \<Longrightarrow>
   broadcast_iter (\<lambda>n. None) pid rid message used i n (self, lg) =
     (case broadcast_loop (drop i (pr_subscriptions self)) pid rid message
             (active_connections self, lg) of
        (conns, lg') \<Rightarrow> (None, self\<lparr>active_connections := conns\<rparr>, lg'))"
proof (induction "used - i" arbitrary: i n self lg)
  case 0
  then have "i = length (pr_subscriptions self)" by simp
  then show ?case
    using 0 by (subst broadcast_iter.simps) simp
next
  case (Suc k)
  then have lt: "i < length (pr_subscriptions self)" and u: "used = length (pr_subscriptions self)"
    by simp_all
  obtain cid sub where at: "pr_subscriptions self ! i = (cid, sub)"
    by (cases "pr_subscriptions self ! i")
  have dr: "drop i (pr_subscriptions self) = (cid, sub) # drop (Suc i) (pr_subscriptions self)"
    using lt at by (simp add: Cons_nth_drop_Suc [symmetric])
  have k: "k = used - Suc i"
    using Suc.hyps(2) by simp
  have IH: "broadcast_iter (\<lambda>n. None) pid rid message used (Suc i) n' (self', lg') =
     (case broadcast_loop (drop (Suc i) (pr_subscriptions self)) pid rid message
             (active_connections self', lg') of
        (conns, lg'') \<Rightarrow> (None, self'\<lparr>active_connections := conns\<rparr>, lg''))"
    if "pr_subscriptions self' = pr_subscriptions self" for self' lg' n'
    using Suc.hyps(1) [where i = "Suc i" and n = n' and self = self' and lg = lg', OF k] that u lt
    by simp
  show ?case
  proof (cases "project_id sub = pid \<and> requirement_id sub = rid")
    case False
    then show ?thesis
      using lt u at IH [where self' = self and lg' = lg and n' = n]
      by (subst broadcast_iter.simps) (auto simp: dr)
  next
    case match: True
    show ?thesis
    proof (cases "find (\<lambda>conn. ws_id conn = cid) (active_connections self)")
      case None
      then show ?thesis
        using lt u at match IH [where self' = self and lg' = lg and n' = n]
        by (subst broadcast_iter.simps) (auto simp: dr)
    next
      case (Some ws)
      show ?thesis
      proof (cases "peer_gone ws")
        case True
        then show ?thesis
          using lt u at match Some IH [where self' = self and lg' = "lg @ [SendFailed SendError]" and n' = "Suc n"]
          by (subst broadcast_iter.simps) (auto simp: dr send_text_def)
      next
        case False
        have "pr_subscriptions
                (self\<lparr>active_connections :=
                       store_ws (ws\<lparr>sent := sent ws @ [message]\<rparr>) (active_connections self)\<rparr>)
              = pr_subscriptions self"
          by simp
        from IH [OF this, where lg' = lg and n' = "Suc n"] False show ?thesis
          using lt u at match Some
          by (subst broadcast_iter.simps) (auto simp: dr send_text_def split: prod.splits)
      qed
    qed
  qed
qed

lemma emit_conc_alone:
  "emit_conc (\<lambda>n. None) pid rid ev s = (None, emit pid rid ev s)"
  using broadcast_iter_alone [of "length (pr_subscriptions (manager s))" "manager s" 0 pid rid _ 0 "log s"]
  by (auto simp: emit_conc_def emit_def broadcast_pr_event_conc_def broadcast_pr_event_def Let_def
           split: prod.splits)

lemma monitor_body_conc_alone:
  "monitor_body_conc w (\<lambda>k n. None) c aid pid rid s = monitor_body w c aid pid rid s"
  by (simp add: monitor_body_conc_def monitor_body_def emit_conc_alone Let_def
           split: sum.splits)

lemma monitor_loop_conc_alone:
  "monitor_loop_conc w (\<lambda>k n. None) c aid pid rid s = monitor_loop w c aid pid rid s"
proof (induction w c aid pid rid s rule: monitor_loop.induct)
  case (1 w c aid pid rid s)
  show ?case
  proof (cases "attempt s < max_attempts")
    case False
    then show ?thesis
      by (subst monitor_loop_conc.simps, subst monitor_loop.simps) simp
  next
    case True
    obtain f s' where b: "monitor_body w c aid pid rid s = (f, s')"
      by (cases "monitor_body w c aid pid rid s")
    show ?thesis
    proof (cases f)
      case Break
      with True b show ?thesis
        by (subst monitor_loop_conc.simps, subst monitor_loop.simps)
           (simp add: monitor_body_conc_alone)
    next
      case Continue
      with True b "1.IH" [OF True b [symmetric] Continue] show ?thesis
        by (subst monitor_loop_conc.simps, subst monitor_loop.simps)
           (simp add: monitor_body_conc_alone)
    qed
  qed
qed

lemma monitor_agent_run_for_pr_conc_alone:
  "monitor_agent_run_for_pr_conc w (\<lambda>k n. None) cached mgr aid pid rid
     = monitor_agent_run_for_pr w cached mgr aid pid rid"
  by (simp add: monitor_agent_run_for_pr_conc_def monitor_agent_run_for_pr_def
        monitor_loop_conc_alone emit_conc_alone Let_def split: sum.splits)

text \<open>
  Claim C1, at an input where it fails. The run has completed with a pull request, and
  connection 1 is subscribed to the key. During the send of the first broadcast another
  connection subscribes, so the dictionary iteration raises; the \<open>except\<close> clause of
  the loop logs that, sleeps and counts the attempt, and the next poll emits the same
  event again: the monitor returns having emitted two events, both delivered to
  connection 1.
\<close>

theorem monitor_emits_twice:
  "\<exists>s. monitor_agent_run_for_pr_conc ex_world_completed ex_others (Some ex_client)
          ex_manager_one ''run1'' ''p1'' ''r1'' = Inr s
      \<and> attempt s = 1
      \<and> emitted s = [ex_created, ex_created]
      \<and> length (emitted s) = 2
      \<and> map (\<lambda>ws. (ws_id ws, sent ws)) (active_connections (manager s))
          = [(1, [pr_status_update ''p1'' ''r1'' ex_created,
                  pr_status_update ''p1'' ''r1'' ex_created]),
             (2, [])]
      \<and> log s = [MonitorError ''run1'' RuntimeError,
                  PrCreated ''r1'' ''https://github.com/o/r/pull/7'']"
proof -
  define w where "w = ex_world_completed"
  define msg where "msg = pr_status_update ''p1'' ''r1'' ex_created"
  define m1 where "m1 =
     \<lparr>active_connections =
        [\<lparr>ws_id = 1, peer_gone = False, sent = [msg]\<rparr>,
         \<lparr>ws_id = 2, peer_gone = False, sent = []\<rparr>],
      pr_subscriptions = [(1, ex_sub ''p1'' ''r1''), (2, ex_sub ''p2'' ''r2'')]\<rparr>"
  define m2 where "m2 =
     \<lparr>active_connections =
        [\<lparr>ws_id = 1, peer_gone = False, sent = [msg, msg]\<rparr>,
         \<lparr>ws_id = 2, peer_gone = False, sent = []\<rparr>],
      pr_subscriptions = [(1, ex_sub ''p1'' ''r1''), (2, ex_sub ''p2'' ''r2'')]\<rparr>"
  define s0 where "s0 = \<lparr>attempt = 0, manager = ex_manager_one, log = [], sleeps = [], emitted = []\<rparr>"
  define s1 where "s1 = \<lparr>attempt = 1, manager = m1, log = [MonitorError ''run1'' RuntimeError],
                         sleeps = [10], emitted = [ex_created]\<rparr>"
  define s2 where "s2 = \<lparr>attempt = 1, manager = m2,
                         log = [MonitorError ''run1'' RuntimeError,
                                PrCreated ''r1'' ''https://github.com/o/r/pull/7''],
                         sleeps = [10], emitted = [ex_created, ex_created]\<rparr>"
  have g: "get_codegen_client (environ w) (Some ex_client) = Inr ex_client"
    by (simp add: get_codegen_client_def)
  have r: "get_agent_run ex_client (run_net w k) ''run1'' = Inr [''status'' \<mapsto> ''completed'']" for k
    by (simp add: get_agent_run_reply response_json_def w_def ex_world_completed_def ex_world_def)
  have l: "get_agent_run_logs ex_client (logs_net w k) ''run1'' 1 10
             = Inr [''logs'' \<mapsto> [''Created pull request https://github.com/o/r/pull/7'']]" for k
    by (simp add: get_agent_run_logs_reply response_json_def w_def ex_world_completed_def ex_world_def)
  have x: "extract_pr_url_from_logs [''Created pull request https://github.com/o/r/pull/7'']
             = Some ''https://github.com/o/r/pull/7''"
    by code_simp
  have n: "now w k = ''2025-01-01T00:00:00''" for k
    by (simp add: w_def ex_world_completed_def ex_world_def)
  have ev: "\<lparr>status = ''created'', prUrl = Some ''https://github.com/o/r/pull/7'', error = None,
             createdAt = ''2025-01-01T00:00:00''\<rparr> = ex_created"
    by (simp add: ex_created_def)
  have b0: "broadcast_pr_event_conc (ex_others 0) ex_manager_one ''p1'' ''r1'' ex_created lg
              = (Some RuntimeError, m1, lg)" for lg
    by (simp add: broadcast_pr_event_conc_def pr_status_update_def [symmetric] msg_def [symmetric]
          broadcast_iter.simps ex_manager_one_def ex_others_def ex_sub_def send_text_def
          subscribe_def m1_def)
  have b1: "broadcast_pr_event_conc (ex_others (Suc 0)) m1 ''p1'' ''r1'' ex_created lg
              = (None, m2, lg)" for lg
    by (simp add: broadcast_pr_event_conc_def pr_status_update_def [symmetric] msg_def [symmetric]
          broadcast_iter.simps ex_others_def ex_sub_def send_text_def m1_def m2_def)
  have body0: "monitor_body_conc w ex_others ex_client ''run1'' ''p1'' ''r1'' s0 = (Continue, s1)"
    unfolding monitor_body_conc_def r l
    by (simp add: s0_def r l x n ev emit_conc_def b0 on_exception_def s1_def
             del: extract_pr_url_from_logs.simps)
  have body1: "monitor_body_conc w ex_others ex_client ''run1'' ''p1'' ''r1'' s1 = (Break, s2)"
    unfolding monitor_body_conc_def r l
    by (simp add: s1_def r l x n ev emit_conc_def b1 s2_def
             del: extract_pr_url_from_logs.simps)
  have a: "attempt s0 < max_attempts" "attempt s1 < max_attempts"
    by (simp_all add: s0_def s1_def max_attempts_def)
  have loop: "monitor_loop_conc w ex_others ex_client ''run1'' ''p1'' ''r1'' s0 = s2"
    using a body0 body1
    by (subst monitor_loop_conc.simps, subst monitor_loop_conc.simps) simp
  have "monitor_agent_run_for_pr_conc w ex_others (Some ex_client) ex_manager_one
          ''run1'' ''p1'' ''r1'' = Inr s2"
    by (simp add: monitor_agent_run_for_pr_conc_def g loop [unfolded s0_def] Let_def)
       (simp add: s2_def max_attempts_def)
  then show ?thesis
    unfolding w_def by (simp add: s2_def m2_def msg_def)
qed

end
